theory Spec2Isabelle
  imports Complex_Main "HOL-Library.Word" "HOL-Library.Sublist"
begin


section \<open>Platform values\<close>

text \<open>
  The program is a browser front end (the dashboard script with the voice overlay, and the
  stand-alone live-chat page). Its global variables, the parts of the page it writes and
  the effects it has on the browser (frames sent on the socket, utterances handed to the
  speech synthesiser, object URLs, audio elements) are the fields of one state record;
  every function of the source is a function on that record. An \<open>async\<close> function is
  split where it awaits: the part before the \<open>await\<close> and the continuation that runs
  when the awaited request settles.

  JavaScript strings are modelled as \<open>string\<close>, read as the UTF-8 bytes of the text
  (a text with an unpaired surrogate has no such reading and is outside the model);
  typed-array bytes are \<open>8 word\<close>; lengths are \<open>nat\<close>; a number that the source
  computes from its input is a double.
\<close>

type_synonym byte = "8 word"
type_synonym url = nat

subsection \<open>Numbers\<close>

text \<open>A number is a double: a finite value (a rational; every finite double is one), an
  infinity or NaN.\<close>

datatype float = Finite rat | PosInfinity | NegInfinity | NaN

definition truncateToZero :: "rat \<Rightarrow> int" where
  "truncateToZero q = (if q < 0 then \<lceil>q\<rceil> else \<lfloor>q\<rfloor>)"

text \<open>\<open>ToUint32\<close>, which \<open>setUint32\<close> applies to the number it is given: NaN and the
  infinities give 0, a finite value is truncated towards zero and reduced modulo
  \<open>2 ^ 32\<close>.\<close>

fun toUint32 :: "float \<Rightarrow> nat" where
  "toUint32 (Finite q) = nat (truncateToZero q mod 4294967296)"
| "toUint32 _ = 0"

text \<open>The number of binary digits of a natural number.\<close>

fun bitLength :: "nat \<Rightarrow> nat" where
  "bitLength n = (if n = 0 then 0 else Suc (bitLength (n div 2)))"

declare bitLength.simps [simp del]

text \<open>The Number value of a natural number: the nearest double, which keeps 53
  significant bits; a tie goes to the even significand; what rounds to \<open>2 ^ 1024\<close> or
  more is \<open>Infinity\<close>.\<close>

definition numberValue :: "nat \<Rightarrow> float" where
  "numberValue n =
     (let ulp = 2 ^ (bitLength n - 53);
          q = n div ulp;
          r = n mod ulp;
          m = (if 2 * r < ulp \<or> (2 * r = ulp \<and> even q) then q else q + 1) * ulp
      in if m < 2 ^ 1024 then Finite (of_nat m) else PosInfinity)"

text \<open>The product of a double with a power of two: exact, or an infinity when it leaves
  the range of the doubles.\<close>

fun timesPowerOfTwo :: "float \<Rightarrow> nat \<Rightarrow> float" where
  "timesPowerOfTwo (Finite a) k =
     (if - (2 ^ 1024) < a * of_nat k \<and> a * of_nat k < 2 ^ 1024 then Finite (a * of_nat k)
      else if 0 < a then PosInfinity else NegInfinity)"
| "timesPowerOfTwo x k = x"

subsection \<open>Base64: the builtins btoa and atob\<close>

definition b64char :: "nat \<Rightarrow> char" where
  "b64char n =
     (if n < 26 then char_of (65 + n)
      else if n < 52 then char_of (71 + n)
      else if n < 62 then char_of (n - 4)
      else if n = 62 then CHR ''+'' else CHR ''/'')"

definition b64val :: "char \<Rightarrow> nat option" where
  "b64val c =
     (let n = (of_char c :: nat) in
      if 65 \<le> n \<and> n \<le> 90 then Some (n - 65)
      else if 97 \<le> n \<and> n \<le> 122 then Some (n - 71)
      else if 48 \<le> n \<and> n \<le> 57 then Some (n + 4)
      else if c = CHR ''+'' then Some 62
      else if c = CHR ''/'' then Some 63
      else None)"

text \<open>\<open>btoa\<close> applied to a binary string: three bytes give four characters, the tail is
  padded with \<open>=\<close>.\<close>

fun btoa :: "byte list \<Rightarrow> string" where
  "btoa [] = []"
| "btoa [a] =
     (let n = unat a in
      [b64char (n div 4), b64char (n mod 4 * 16), CHR ''='', CHR ''=''])"
| "btoa [a, b] =
     (let n = unat a * 256 + unat b in
      [b64char (n div 1024), b64char (n div 16 mod 64), b64char (n mod 16 * 4), CHR ''=''])"
| "btoa (a # b # c # rest) =
     (let n = unat a * 65536 + unat b * 256 + unat c in
      [b64char (n div 262144), b64char (n div 4096 mod 64), b64char (n div 64 mod 64),
       b64char (n mod 64)] @ btoa rest)"

definition isAsciiWhitespace :: "char \<Rightarrow> bool" where
  "isAsciiWhitespace c = ((of_char c :: nat) \<in> {9, 10, 12, 13, 32})"

definition stripPadding :: "string \<Rightarrow> string" where
  "stripPadding s =
     (if length s mod 4 = 0 then
        (if 2 \<le> length s \<and> drop (length s - 2) s = ''=='' then take (length s - 2) s
         else if 1 \<le> length s \<and> drop (length s - 1) s = ''='' then take (length s - 1) s
         else s)
      else s)"

fun sextets :: "string \<Rightarrow> nat list option" where
  "sextets [] = Some []"
| "sextets (c # cs) =
     (case b64val c of
        None \<Rightarrow> None
      | Some v \<Rightarrow> (case sextets cs of None \<Rightarrow> None | Some vs \<Rightarrow> Some (v # vs)))"

fun sextetBytes :: "nat list \<Rightarrow> byte list" where
  "sextetBytes (a # b # c # d # rest) =
     (let n = a * 262144 + b * 4096 + c * 64 + d in
      [of_nat (n div 65536), of_nat (n div 256), of_nat n] @ sextetBytes rest)"
| "sextetBytes [a, b, c] =
     (let n = a * 4096 + b * 64 + c in [of_nat (n div 1024), of_nat (n div 4)])"
| "sextetBytes [a, b] = [of_nat ((a * 64 + b) div 16)]"
| "sextetBytes _ = []"

text \<open>\<open>atob\<close> is the forgiving base64 decoder of the platform: \<open>None\<close> is the
  \<open>InvalidCharacterError\<close> it throws.\<close>

definition atob :: "string \<Rightarrow> byte list option" where
  "atob data =
     (let s = stripPadding (filter (\<lambda>c. \<not> isAsciiWhitespace c) data) in
      if length s mod 4 = 1 then None
      else (case sextets s of None \<Rightarrow> None | Some vs \<Rightarrow> Some (sextetBytes vs)))"

subsection \<open>Typed arrays and the DataView\<close>

text \<open>\<open>target.set(source, offset)\<close> on typed arrays, for a source that fits.\<close>

definition typedSet :: "byte list \<Rightarrow> byte list \<Rightarrow> nat \<Rightarrow> byte list" where
  "typedSet target source offset =
     take offset target @ source @ drop (offset + length source) target"

definition setUint8 :: "nat \<Rightarrow> nat \<Rightarrow> byte list \<Rightarrow> byte list" where
  "setUint8 offset v view = view[offset := of_nat v]"

text \<open>Little-endian stores (the source passes \<open>true\<close>) of a natural number, which is
  reduced modulo the width of the slot, as \<open>ToUint16\<close> and \<open>ToUint32\<close> do.\<close>

definition setUint16 :: "nat \<Rightarrow> nat \<Rightarrow> byte list \<Rightarrow> byte list" where
  "setUint16 offset v view =
     view[offset := of_nat v, offset + 1 := of_nat (v div 256)]"

definition setUint32 :: "nat \<Rightarrow> nat \<Rightarrow> byte list \<Rightarrow> byte list" where
  "setUint32 offset v view =
     view[offset := of_nat v, offset + 1 := of_nat (v div 256),
          offset + 2 := of_nat (v div 65536), offset + 3 := of_nat (v div 16777216)]"

text \<open>Reading a little-endian field back, to state what a header declares.\<close>

definition getUint32 :: "nat \<Rightarrow> byte list \<Rightarrow> nat" where
  "getUint32 offset view =
     unat (view ! offset) + 256 * unat (view ! (offset + 1))
     + 65536 * unat (view ! (offset + 2)) + 16777216 * unat (view ! (offset + 3))"

fun writeString :: "byte list \<Rightarrow> nat \<Rightarrow> string \<Rightarrow> byte list" where
  "writeString view offset [] = view"
| "writeString view offset (c # cs) =
     writeString (setUint8 offset (of_char c) view) (offset + 1) cs"

subsection \<open>The WAV container\<close>

fun concatLoop :: "byte list list \<Rightarrow> nat \<Rightarrow> byte list \<Rightarrow> byte list" where
  "concatLoop [] offset result = result"
| "concatLoop (chunk # chunks) offset result =
     concatLoop chunks (offset + length chunk) (typedSet result chunk offset)"

definition concatUint8Arrays :: "byte list list \<Rightarrow> byte list" where
  "concatUint8Arrays chunks =
     (let totalLength = foldl (\<lambda>sum chunk. sum + length chunk) 0 chunks;
          result = replicate totalLength 0
      in concatLoop chunks 0 result)"

definition isDigit :: "char \<Rightarrow> bool" where
  "isDigit c = (48 \<le> (of_char c :: nat) \<and> (of_char c :: nat) \<le> 57)"

text \<open>\<open>parseInt(digits, 10)\<close> on a string of decimal digits: the Number value of the
  integer that the digits denote. (The language lets an engine ignore the digits after the
  twentieth; the common engines keep them, and so does this definition.)\<close>

definition digitsValue :: "string \<Rightarrow> nat" where
  "digitsValue ds = foldl (\<lambda>n d. 10 * n + (of_char d - 48)) 0 ds"

definition parseInt :: "string \<Rightarrow> float" where
  "parseInt ds = numberValue (digitsValue ds)"

text \<open>The first match of \<open>/rate=(\d+)/\<close>: the digits after the leftmost \<open>rate=\<close> that
  a digit follows.\<close>

fun rateMatch :: "string \<Rightarrow> string option" where
  "rateMatch [] = None"
| "rateMatch (c # cs) =
     (if prefix ''rate='' (c # cs) \<and> takeWhile isDigit (drop 5 (c # cs)) \<noteq> []
      then Some (takeWhile isDigit (drop 5 (c # cs)))
      else rateMatch cs)"

definition getSampleRateFromMime :: "string option \<Rightarrow> float option" where
  "getSampleRateFromMime mimeType =
     (case mimeType of
        None \<Rightarrow> None
      | Some m \<Rightarrow> if m = [] then None else map_option parseInt (rateMatch m))"

text \<open>The 44 header bytes that \<open>createWavBlob\<close> writes. The data size is the length of
  a typed array, a natural number; the sample rate is the number that \<open>parseInt\<close> gave
  or the default.\<close>

definition wavHeader :: "nat \<Rightarrow> float \<Rightarrow> byte list" where
  "wavHeader dataSize sampleRate =
     (let numChannels = 1;
          bitsPerSample = 16;
          blockAlign = numChannels * bitsPerSample div 8;
          byteRate = timesPowerOfTwo sampleRate blockAlign;
          view = replicate 44 0;
          view = writeString view 0 ''RIFF'';
          view = setUint32 4 (36 + dataSize) view;
          view = writeString view 8 ''WAVE'';
          view = writeString view 12 ''fmt '';
          view = setUint32 16 16 view;
          view = setUint16 20 1 view;
          view = setUint16 22 numChannels view;
          view = setUint32 24 (toUint32 sampleRate) view;
          view = setUint32 28 (toUint32 byteRate) view;
          view = setUint16 32 blockAlign view;
          view = setUint16 34 bitsPerSample view;
          view = writeString view 36 ''data'';
          view = setUint32 40 dataSize view
      in view)"

definition createWavBlob :: "byte list \<Rightarrow> float \<Rightarrow> byte list" where
  "createWavBlob pcmBytes sampleRate =
     (let dataSize = length pcmBytes;
          buffer = wavHeader dataSize sampleRate;
          wavBytes = replicate (44 + dataSize) 0;
          wavBytes = typedSet wavBytes buffer 0;
          wavBytes = typedSet wavBytes pcmBytes 44
      in wavBytes)"

section \<open>The state of the page\<close>

datatype sender = Bot | User | System

datatype chat_entry = Message string sender "string option" bool | LoadingMessage nat

datatype conn = Connecting | Connected | Recording | Disconnected

datatype button = MicButton | NavMicButton

datatype mode = Chat | Nav

datatype input_mode = AudioMode | TextMode

text \<open>The handle that \<open>setTimeout\<close> returned: the timer is still pending (with the time
  it is due, in milliseconds) or has fired. The source only starts the fallback timer
  right after clearing the handle it holds, so the handle's timer is the only one.\<close>

datatype timer = Pending nat | Fired

datatype frame = AudioFrame string string | AudioStreamEnd | TextFrame string "string list"

datatype lang = ArSA | EnUS

record state =
  sessionId :: "string option"
  isProcessing :: bool
  isRecording :: bool
  wsOpen :: bool
  audioContext :: bool
  mediaRecorder :: bool
  pendingAudioChunks :: "byte list list"
  pendingAudioMimeType :: "string option"
  audioQueue :: "url list"
  isPlayingAudio :: bool
  hasShownAudioIndicator :: bool
  activeRecordingTarget :: "button option"
  activeRecordingMode :: "mode option"
  navAwaitingResponse :: bool
  lastResponseText :: "string option"
  navResponseTimeout :: "timer option"
  navSuppressRealtime :: bool
  awaitingRealtimeResponse :: bool
  activeAudio :: "url option"
  chatMessages :: "chat_entry list"
  messageInput :: string
  sendButtonDisabled :: bool
  uploadStatus :: "string \<times> string"
  uploadButtonDisabled :: bool
  connectionStatus :: "conn \<times> string"
  statusMessage :: string
  navResponding :: bool
  recordingButtons :: "button set"
  currentPage :: string
  scheduledNavigation :: "(nat \<times> string) list"
  sent :: "frame list"
  spoken :: "(string \<times> lang) list"
  speechSynthesis :: bool
  objectURLs :: "byte list list"
  revoked :: "url list"
  playing :: "url list"
  paused :: "url list"
  started :: "url list"
  processorConnected :: bool
  tracksLive :: bool
  assistInFlight :: nat
  queryInFlight :: "nat option"
  uploadInFlight :: "string list"
  mediaRequests :: "(mode \<times> button) list"
  currentMode :: input_mode
  alerts :: "string list"

text \<open>
  The first nineteen fields are the script's global variables (\<open>wsOpen\<close> stands for
  \<open>liveWebSocket && liveWebSocket.readyState === WebSocket.OPEN\<close>; \<open>audioContext\<close> and
  \<open>mediaRecorder\<close> say whether the variable holds an object). Then the page:
  the children of the chat box, the input, the buttons, the status line, the buttons that
  carry the class \<open>recording\<close>, the location hash without its \<open>#\<close>. Then the browser:
  the frames sent on the socket, the utterances given to \<open>speechSynthesis.speak\<close>, whether
  the window has \<open>speechSynthesis\<close>, the blobs behind the object URLs (a URL is the index
  of its blob), the URLs revoked, the audio elements that were started and have neither
  ended, failed nor been paused (\<open>playing\<close>), the elements paused (\<open>paused\<close>),
  every element started (\<open>started\<close>), the
  script processor and the microphone tracks, and the requests that have not settled yet.
  The stand-alone live-chat page has a script of its own with variables of the same
  names; its functions work on the same record (its record button is \<open>MicButton\<close>, its
  text input \<open>messageInput\<close>, its message list \<open>chatMessages\<close>), and the last two
  fields are its input mode and the dialogs it has raised with \<open>alert\<close>.
\<close>

definition truthy :: "string option \<Rightarrow> bool" where
  "truthy v = (case v of None \<Rightarrow> False | Some s \<Rightarrow> s \<noteq> [])"

definition jsOr :: "string option \<Rightarrow> string option \<Rightarrow> string option" where
  "jsOr a b = (if truthy a then a else b)"

definition addMessage :: "string \<Rightarrow> sender \<Rightarrow> string option \<Rightarrow> bool \<Rightarrow> state \<Rightarrow> state" where
  "addMessage body type toolUsed isError st =
     st\<lparr>chatMessages := chatMessages st @ [Message body type toolUsed isError]\<rparr>"

definition updateConnectionStatus :: "conn \<Rightarrow> string \<Rightarrow> state \<Rightarrow> state" where
  "updateConnectionStatus status label st =
     st\<lparr>connectionStatus := (status, if label = [] then ''Ready'' else label)\<rparr>"

definition setNavResponding :: "bool \<Rightarrow> state \<Rightarrow> state" where
  "setNavResponding isResponding st =
     st\<lparr>navResponding := (isResponding \<and> navAwaitingResponse st)\<rparr>"

subsection \<open>Speech fallback\<close>

text \<open>The test for a character in the range U+0600 to U+06FF, on the UTF-8 bytes:
  exactly the two-byte sequences led by \<open>0xD8\<close> to \<open>0xDB\<close>.\<close>

definition isArabicText :: "string \<Rightarrow> bool" where
  "isArabicText s = (\<exists>c \<in> set s. 216 \<le> (of_char c :: nat) \<and> (of_char c :: nat) \<le> 219)"

definition speakTextResponse :: "string option \<Rightarrow> state \<Rightarrow> state" where
  "speakTextResponse body st =
     (case body of
        None \<Rightarrow> st
      | Some s \<Rightarrow>
          if s = [] then st
          else if \<not> speechSynthesis st
          then addMessage ''Audio playback not supported in this browser.'' Bot None False st
          else (updateConnectionStatus Connected ''Speaking...'' st)
                 \<lparr>spoken := spoken st @ [(s, if isArabicText s then ArSA else EnUS)]\<rparr>)"

definition clearNavSpeechFallback :: "state \<Rightarrow> state" where
  "clearNavSpeechFallback st =
     (if navResponseTimeout st \<noteq> None then st\<lparr>navResponseTimeout := None\<rparr> else st)"

definition scheduleNavSpeechFallback :: "nat \<Rightarrow> state \<Rightarrow> state" where
  "scheduleNavSpeechFallback now st =
     (if \<not> navAwaitingResponse st \<or> \<not> truthy (lastResponseText st) \<or> navSuppressRealtime st
      then st
      else (clearNavSpeechFallback st)\<lparr>navResponseTimeout := Some (Pending (now + 2500))\<rparr>)"

text \<open>The body of the function given to \<open>setTimeout\<close>.\<close>

definition navTimeoutCallback :: "state \<Rightarrow> state" where
  "navTimeoutCallback st =
     (if navAwaitingResponse st \<and> pendingAudioChunks st = [] \<and> truthy (lastResponseText st)
      then (speakTextResponse (lastResponseText st) st)
             \<lparr>lastResponseText := None, navAwaitingResponse := False\<rparr>
      else st)"

text \<open>The browser runs the callback of a pending timer once, no earlier than it is due.\<close>

definition fireNavTimeout :: "nat \<Rightarrow> state \<Rightarrow> state" where
  "fireNavTimeout now st =
     (case navResponseTimeout st of
        Some (Pending due) \<Rightarrow>
          if due \<le> now then navTimeoutCallback (st\<lparr>navResponseTimeout := Some Fired\<rparr>) else st
      | _ \<Rightarrow> st)"

definition resetNavAssistState :: "state \<Rightarrow> state" where
  "resetNavAssistState st = clearNavSpeechFallback (st\<lparr>navSuppressRealtime := False\<rparr>)"

definition resetAudioPlaybackState :: "state \<Rightarrow> state" where
  "resetAudioPlaybackState st =
     (let st = st\<lparr>pendingAudioChunks := [], pendingAudioMimeType := None, audioQueue := [],
                  isPlayingAudio := False, hasShownAudioIndicator := False\<rparr>
      in case activeAudio st of
           None \<Rightarrow> st
         | Some audio \<Rightarrow>
             st\<lparr>playing := removeAll audio (playing st), paused := paused st @ [audio],
                activeAudio := None\<rparr>)"

subsection \<open>Audio assembler and playback queue\<close>

definition bufferAudioChunk :: "string option \<Rightarrow> string option \<Rightarrow> state \<Rightarrow> state" where
  "bufferAudioChunk base64Audio mimeType st =
     (if \<not> truthy base64Audio then st
      else (case atob (the base64Audio) of
              None \<Rightarrow> st
            | Some bytes \<Rightarrow>
                if length bytes = 0 then st
                else st\<lparr>pendingAudioChunks := pendingAudioChunks st @ [bytes],
                        pendingAudioMimeType :=
                          jsOr mimeType
                            (jsOr (pendingAudioMimeType st) (Some ''audio/pcm;rate=24000''))\<rparr>))"

definition playNextAudio :: "state \<Rightarrow> state" where
  "playNextAudio st =
     (case audioQueue st of
        [] \<Rightarrow>
          updateConnectionStatus Connected ''Ready''
            (st\<lparr>isPlayingAudio := False, hasShownAudioIndicator := False, activeAudio := None\<rparr>)
      | audioUrl # rest \<Rightarrow>
          st\<lparr>isPlayingAudio := True, audioQueue := rest, activeAudio := Some audioUrl,
             playing := playing st @ [audioUrl], started := started st @ [audioUrl]\<rparr>)"

text \<open>The handlers \<open>audio.onended\<close> and \<open>audio.onerror\<close> of the element made for
  \<open>audioUrl\<close> (their bodies are the same), and the rejection of \<open>audio.play()\<close>.\<close>

definition audioFinished :: "url \<Rightarrow> state \<Rightarrow> state" where
  "audioFinished audioUrl st =
     (let st = st\<lparr>revoked := revoked st @ [audioUrl],
                  playing := removeAll audioUrl (playing st)\<rparr>;
          st = (if activeAudio st = Some audioUrl then st\<lparr>activeAudio := None\<rparr> else st)
      in playNextAudio st)"

definition playRejected :: "state \<Rightarrow> state" where
  "playRejected st = addMessage ''Click anywhere to enable audio playback.'' Bot None False st"

definition playingAudioNotice :: string where
  "playingAudioNotice = [CHR 0xF0, CHR 0x9F, CHR 0x94, CHR 0x8A] @ '' Playing audio response...''"

definition finalizeAudioResponse :: "state \<Rightarrow> state" where
  "finalizeAudioResponse st =
     (if length (pendingAudioChunks st) = 0 then st
      else
        (let pcmBytes = concatUint8Arrays (pendingAudioChunks st);
             sampleRate =
               (case getSampleRateFromMime (pendingAudioMimeType st) of
                  None \<Rightarrow> Finite 24000
                | Some r \<Rightarrow> if r = Finite 0 \<or> r = NaN then Finite 24000 else r);
             wavBlob = createWavBlob pcmBytes sampleRate;
             audioUrl = length (objectURLs st);
             st = st\<lparr>objectURLs := objectURLs st @ [wavBlob],
                     audioQueue := audioQueue st @ [audioUrl],
                     pendingAudioChunks := [], pendingAudioMimeType := None\<rparr>;
             st = (if \<not> hasShownAudioIndicator st
                   then (addMessage playingAudioNotice Bot None False st)
                          \<lparr>hasShownAudioIndicator := True\<rparr>
                   else st)
         in if \<not> isPlayingAudio st then playNextAudio st else st))"


subsection \<open>Navigation payloads\<close>

datatype json =
  JNull | JBool bool | JNumber int | JString string | JArray "json list"
  | JObject "(string \<times> json) list"

text \<open>The characters that \<open>String.prototype.trim\<close> removes, each as its UTF-8 bytes:
  the white space of the language (tab, vertical tab, form feed, space, no-break space,
  U+FEFF and the other space separators U+1680, U+2000 to U+200A, U+202F, U+205F, U+3000)
  and its line terminators (line feed, carriage return, U+2028, U+2029).\<close>

definition whiteSpace :: "string list" where
  "whiteSpace =
     [[CHR 0x09], [CHR 0x0A], [CHR 0x0B], [CHR 0x0C], [CHR 0x0D], [CHR 0x20],
      [CHR 0xC2, CHR 0xA0],
      [CHR 0xE1, CHR 0x9A, CHR 0x80],
      [CHR 0xE2, CHR 0x80, CHR 0x80], [CHR 0xE2, CHR 0x80, CHR 0x81],
      [CHR 0xE2, CHR 0x80, CHR 0x82], [CHR 0xE2, CHR 0x80, CHR 0x83],
      [CHR 0xE2, CHR 0x80, CHR 0x84], [CHR 0xE2, CHR 0x80, CHR 0x85],
      [CHR 0xE2, CHR 0x80, CHR 0x86], [CHR 0xE2, CHR 0x80, CHR 0x87],
      [CHR 0xE2, CHR 0x80, CHR 0x88], [CHR 0xE2, CHR 0x80, CHR 0x89],
      [CHR 0xE2, CHR 0x80, CHR 0x8A],
      [CHR 0xE2, CHR 0x80, CHR 0xA8], [CHR 0xE2, CHR 0x80, CHR 0xA9],
      [CHR 0xE2, CHR 0x80, CHR 0xAF],
      [CHR 0xE2, CHR 0x81, CHR 0x9F],
      [CHR 0xE3, CHR 0x80, CHR 0x80],
      [CHR 0xEF, CHR 0xBB, CHR 0xBF]]"

text \<open>Removing from the front of a string every character whose bytes are in a list.\<close>

fun stripLeading :: "string list \<Rightarrow> string \<Rightarrow> string" where
  "stripLeading ws [] = []"
| "stripLeading ws (c # cs) =
     (case find (\<lambda>w. prefix w (c # cs)) ws of
        None \<Rightarrow> c # cs
      | Some w \<Rightarrow> stripLeading ws (drop (length w - 1) cs))"

text \<open>\<open>trim\<close> removes the white space at both ends; at the end the bytes of a
  character are met in reverse.\<close>

definition trim :: "string \<Rightarrow> string" where
  "trim s = rev (stripLeading (map rev whiteSpace) (rev (stripLeading whiteSpace s)))"

definition typeofString :: "json \<Rightarrow> string \<Rightarrow> bool" where
  "typeofString parsed key =
     (case parsed of
        JObject kvs \<Rightarrow> (case map_of kvs key of Some (JString _) \<Rightarrow> True | _ \<Rightarrow> False)
      | _ \<Rightarrow> False)"

text \<open>\<open>JSON_parse\<close> is the builtin \<open>JSON.parse\<close>, a parameter of the model: \<open>None\<close>
  is the \<open>SyntaxError\<close> it throws, an object lists each key once.\<close>

definition isNavigationPayload :: "(string \<Rightarrow> json option) \<Rightarrow> string \<Rightarrow> bool" where
  "isNavigationPayload JSON_parse body =
     (if body = [] then False
      else
        (let trimmed = trim body in
         if \<not> (prefix ''{'' trimmed) \<or> \<not> (suffix ''}'' trimmed) then False
         else (case JSON_parse trimmed of
                 None \<Rightarrow> False
               | Some parsed \<Rightarrow>
                   parsed \<noteq> JNull \<and> (typeofString parsed ''page'' \<or> typeofString parsed ''destination''))))"

subsection \<open>Page navigation and the chat request\<close>

text \<open>\<open>navigateTo\<close> sets the location hash (and redraws the page, which is not
  modelled).\<close>

definition navigateTo :: "string \<Rightarrow> state \<Rightarrow> state" where
  "navigateTo page st = st\<lparr>currentPage := page\<rparr>"

definition stripHash :: "string \<Rightarrow> string" where
  "stripHash s = remove1 (CHR ''#'') s"

definition removeLoadingMessage :: "nat \<Rightarrow> state \<Rightarrow> state" where
  "removeLoadingMessage loadingId st =
     st\<lparr>chatMessages := remove1 (LoadingMessage loadingId) (chatMessages st)\<rparr>"

text \<open>\<open>handleSendMessage\<close> up to its \<open>await fetch\<close>; the loading element's id is made
  from the time.\<close>

definition handleSendMessage :: "nat \<Rightarrow> state \<Rightarrow> state" where
  "handleSendMessage now st =
     (let message = trim (messageInput st) in
      if message = [] \<or> isProcessing st then st
      else
        (let st = addMessage message User None False st;
             st = st\<lparr>messageInput := []\<rparr>;
             st = st\<lparr>chatMessages := chatMessages st @ [LoadingMessage now]\<rparr>
         in st\<lparr>isProcessing := True, sendButtonDisabled := True, queryInFlight := Some now\<rparr>))"

text \<open>How the query request settles: the fetch or the reading of its JSON body fails, the
  response is not ok, or it is ok with \<open>content\<close>, \<open>tool_used\<close>, \<open>target_route\<close>
  and \<open>session_id\<close>.\<close>

datatype query_outcome =
  QueryFailed
  | QueryNotOk nat
  | QueryOk "string option" "string option" "string option" "string option"

definition queryErrorText :: string where
  "queryErrorText = ''Sorry, I encountered an error processing your request. Please try again.''"

definition querySucceeded :: "nat \<Rightarrow> nat \<Rightarrow> query_outcome \<Rightarrow> state \<Rightarrow> state option" where
  "querySucceeded now loadingId outcome st =
     (case outcome of
        QueryFailed \<Rightarrow> None
      | QueryNotOk _ \<Rightarrow> None
      | QueryOk content tool_used target_route session_id \<Rightarrow>
          (let st = (if truthy session_id then st\<lparr>sessionId := session_id\<rparr> else st);
               st = removeLoadingMessage loadingId st
           in case content of
                None \<Rightarrow> None
              | Some c \<Rightarrow>
                  (let st = addMessage c Bot tool_used False st
                   in Some (if truthy target_route
                            then st\<lparr>scheduledNavigation := scheduledNavigation st
                                       @ [(now + 1000, stripHash (the target_route))]\<rparr>
                            else st))))"

text \<open>The continuation of \<open>handleSendMessage\<close>: the \<open>try\<close> block (\<open>None\<close> when it
  throws), the \<open>catch\<close> block and the \<open>finally\<close> block. A thrown \<open>try\<close> block
  keeps the session id it may have stored before.\<close>

definition handleSendMessageReply :: "nat \<Rightarrow> query_outcome \<Rightarrow> state \<Rightarrow> state" where
  "handleSendMessageReply now outcome st =
     (case queryInFlight st of
        None \<Rightarrow> st
      | Some loadingId \<Rightarrow>
          (let st =
             (case querySucceeded now loadingId outcome st of
                Some st' \<Rightarrow> st'
              | None \<Rightarrow>
                  (let st = (case outcome of
                               QueryOk _ _ _ session_id \<Rightarrow>
                                 if truthy session_id then st\<lparr>sessionId := session_id\<rparr> else st
                             | _ \<Rightarrow> st);
                       st = removeLoadingMessage loadingId st
                   in addMessage queryErrorText Bot None True st))
           in st\<lparr>isProcessing := False, sendButtonDisabled := False, queryInFlight := None\<rparr>))"

subsection \<open>File upload\<close>

datatype upload_outcome = UploadFailed string | UploadResponse bool "string option"

definition handleFileUpload :: "string option \<Rightarrow> state \<Rightarrow> state" where
  "handleFileUpload file st =
     (case file of
        None \<Rightarrow> st
      | Some name \<Rightarrow>
          st\<lparr>uploadStatus := (''Uploading '' @ name @ ''...'', ''upload-status''),
             uploadButtonDisabled := True,
             uploadInFlight := uploadInFlight st @ [name]\<rparr>)"

definition uploadErrorStatus :: "string \<Rightarrow> string \<times> string" where
  "uploadErrorStatus msg =
     ([CHR 0xE2, CHR 0x9C, CHR 0x97] @ '' Error: '' @ msg, ''upload-status error'')"

definition handleFileUploadReply :: "upload_outcome \<Rightarrow> state \<Rightarrow> state" where
  "handleFileUploadReply outcome st =
     (case uploadInFlight st of
        [] \<Rightarrow> st
      | name # rest \<Rightarrow>
          (let st = st\<lparr>uploadInFlight := rest\<rparr>;
               st =
                 (case outcome of
                    UploadResponse True _ \<Rightarrow>
                      addMessage (''I've processed the file \"'' @ name
                                  @ ''\". You can now ask me questions about its content!'')
                        Bot None False
                        (st\<lparr>uploadStatus :=
                              ([CHR 0xE2, CHR 0x9C, CHR 0x93] @ '' '' @ name @ '' ingested!'',
                               ''upload-status success'')\<rparr>)
                  | UploadResponse False detail \<Rightarrow>
                      st\<lparr>uploadStatus :=
                           uploadErrorStatus (if truthy detail then the detail else ''Upload failed'')\<rparr>
                  | UploadFailed msg \<Rightarrow> st\<lparr>uploadStatus := uploadErrorStatus msg\<rparr>)
           in st\<lparr>uploadButtonDisabled := False\<rparr>))"


subsection \<open>The assist overlay\<close>

datatype assist_action =
  ActNavigate "string option"
  | ActOpenChat
  | ActOpenUpload
  | ActFocusChatInput
  | ActInsertText "string option"
  | ActSendText
  | ActShowGuide
  | ActHighlight "string option"
  | ActUnknown

definition navGuide :: string where
  "navGuide =
     ''Here is a quick guide to the site:'' @ [CHR 0x0A]
     @ [CHR 0xE2, CHR 0x80, CHR 0xA2] @ '' Use Chat to ask questions or learn from uploaded files.'' @ [CHR 0x0A]
     @ [CHR 0xE2, CHR 0x80, CHR 0xA2] @ '' Click Upload in Chat to add Excel, text, or PDF files.'' @ [CHR 0x0A]
     @ [CHR 0xE2, CHR 0x80, CHR 0xA2] @ '' Ask: \"Summarize the academy rules\" or \"Show me player stats.\"'' @ [CHR 0x0A]
     @ [CHR 0xE2, CHR 0x80, CHR 0xA2] @ '' Use the sidebar to open Dashboard, Players, Stats, or Settings.'' @ [CHR 0x0A]
     @ [CHR 0xE2, CHR 0x80, CHR 0xA2] @ '' Say: \"Upload a file\", \"Open chat\", or \"Type my question\".''"

definition openChatView :: "state \<Rightarrow> state" where
  "openChatView st = (if currentPage st \<noteq> ''chat'' then navigateTo ''chat'' st else st)"

definition showNavGuide :: "state \<Rightarrow> state" where
  "showNavGuide st = addMessage navGuide Bot (Some ''navigation'') False st"

text \<open>One round of the \<open>forEach\<close> in \<open>executeAssistActions\<close>. Opening the file dialog,
  focusing the input and the transient highlight leave the modelled state as it is.\<close>

definition executeAssistAction :: "nat \<Rightarrow> state \<Rightarrow> assist_action \<Rightarrow> state" where
  "executeAssistAction now st action =
     (case action of
        ActNavigate v \<Rightarrow>
          (let target = stripHash (if truthy v then the v else [])
           in if target \<noteq> [] then navigateTo target st else st)
      | ActOpenChat \<Rightarrow> openChatView st
      | ActOpenUpload \<Rightarrow> st
      | ActFocusChatInput \<Rightarrow> st
      | ActInsertText v \<Rightarrow> (case v of Some s \<Rightarrow> st\<lparr>messageInput := s\<rparr> | None \<Rightarrow> st)
      | ActSendText \<Rightarrow> handleSendMessage now st
      | ActShowGuide \<Rightarrow> showNavGuide st
      | ActHighlight t \<Rightarrow> st
      | ActUnknown \<Rightarrow> st)"

definition executeAssistActions :: "nat \<Rightarrow> assist_action list \<Rightarrow> state \<Rightarrow> state" where
  "executeAssistActions now actions st = foldl (executeAssistAction now) st actions"

text \<open>\<open>handleNavAssist\<close> up to its \<open>await fetch\<close>: the request is sent when the guard
  lets it through.\<close>

definition handleNavAssist :: "string \<Rightarrow> state \<Rightarrow> state" where
  "handleNavAssist transcript st =
     (if \<not> navAwaitingResponse st \<or> transcript = [] then st
      else st\<lparr>assistInFlight := assistInFlight st + 1\<rparr>)"

text \<open>How the assist request settles: the fetch or the reading of its JSON body fails, the
  response is not ok, or it is ok with \<open>message\<close>, \<open>actions\<close> (when an array) and
  \<open>handled\<close>.\<close>

datatype assist_outcome =
  AssistFailed
  | AssistNotOk
  | AssistOk "string option" "assist_action list option" bool

text \<open>The continuation of \<open>handleNavAssist\<close>. Its \<open>catch\<close> block writes to the console
  only.\<close>

definition handleNavAssistReply :: "nat \<Rightarrow> assist_outcome \<Rightarrow> state \<Rightarrow> state" where
  "handleNavAssistReply now outcome st =
     (if assistInFlight st = 0 then st
      else
        (let st = st\<lparr>assistInFlight := assistInFlight st - 1\<rparr> in
         case outcome of
           AssistFailed \<Rightarrow> st
         | AssistNotOk \<Rightarrow> st
         | AssistOk message actions handled \<Rightarrow>
             (let st = (if truthy message
                        then (addMessage (the message) Bot (Some ''navigation'') False st)
                               \<lparr>lastResponseText := message\<rparr>
                        else st);
                  st = (case actions of
                          Some acts \<Rightarrow> executeAssistActions now acts st
                        | None \<Rightarrow> st)
              in if handled then
                   (let st = st\<lparr>navSuppressRealtime := True\<rparr>;
                        st = clearNavSpeechFallback st;
                        st = (if truthy (lastResponseText st)
                              then speakTextResponse (lastResponseText st) st else st)
                    in st\<lparr>lastResponseText := None, navAwaitingResponse := False,
                           awaitingRealtimeResponse := False\<rparr>)
                 else st)))"

subsection \<open>Inbound envelopes\<close>

datatype live_message =
  ConnectedMsg
  | TextMsg string
  | AudioMsg "string option" "string option"
  | TranscriptionMsg string
  | NavigateMsg "string option" "string option"
  | TurnComplete
  | ErrorMsg string
  | OtherMsg

definition handleLiveMessage ::
  "(string \<Rightarrow> json option) \<Rightarrow> nat \<Rightarrow> live_message \<Rightarrow> state \<Rightarrow> state" where
  "handleLiveMessage JSON_parse now message st =
     (case message of
        ConnectedMsg \<Rightarrow> addMessage ''Connected to OpenAI Realtime'' Bot None False st
      | TextMsg content \<Rightarrow>
          if navSuppressRealtime st \<and> navAwaitingResponse st then st
          else
            (let st = (if \<not> isNavigationPayload JSON_parse content
                       then scheduleNavSpeechFallback now
                              ((addMessage content Bot None False st)
                                 \<lparr>lastResponseText := Some content\<rparr>)
                       else st)
             in setNavResponding True st)
      | AudioMsg audio mime_type \<Rightarrow>
          if navSuppressRealtime st \<and> navAwaitingResponse st then clearNavSpeechFallback st
          else if \<not> awaitingRealtimeResponse st then st
          else setNavResponding True
                 (bufferAudioChunk audio mime_type (clearNavSpeechFallback st))
      | TranscriptionMsg content \<Rightarrow>
          handleNavAssist content (addMessage content User None False st)
      | NavigateMsg message target_route \<Rightarrow>
          (let st = (if truthy message
                     then scheduleNavSpeechFallback now
                            ((addMessage (the message) Bot (Some ''navigation'') False st)
                               \<lparr>lastResponseText := message\<rparr>)
                     else st);
               st = (if truthy target_route
                     then navigateTo (stripHash (the target_route)) st else st)
           in setNavResponding False st)
      | TurnComplete \<Rightarrow>
          (let st = clearNavSpeechFallback st in
           if navSuppressRealtime st then
             setNavResponding False
               (st\<lparr>pendingAudioChunks := [], navSuppressRealtime := False,
                   lastResponseText := None, navAwaitingResponse := False,
                   awaitingRealtimeResponse := False\<rparr>)
           else
             (let st = (if length (pendingAudioChunks st) \<noteq> 0 then finalizeAudioResponse st
                        else if navAwaitingResponse st \<and> truthy (lastResponseText st)
                        then speakTextResponse (lastResponseText st) st
                        else st)
              in setNavResponding False
                   (st\<lparr>lastResponseText := None, navAwaitingResponse := False,
                       awaitingRealtimeResponse := False\<rparr>)))
      | ErrorMsg content \<Rightarrow> addMessage (''Error: '' @ content) Bot None True st
      | OtherMsg \<Rightarrow> st)"

subsection \<open>Capture\<close>

text \<open>\<open>startRecording\<close> up to its \<open>await getUserMedia\<close>, and its continuation: with the
  stream (\<open>True\<close>) or in the \<open>catch\<close> block (\<open>False\<close>).\<close>

definition startRecording :: "mode \<Rightarrow> button \<Rightarrow> state \<Rightarrow> state" where
  "startRecording m buttonEl st =
     (if isRecording st then st
      else (resetAudioPlaybackState (resetNavAssistState st))
             \<lparr>mediaRequests := mediaRequests st @ [(m, buttonEl)]\<rparr>)"

definition startRecordingReply :: "bool \<Rightarrow> state \<Rightarrow> state" where
  "startRecordingReply granted st =
     (case mediaRequests st of
        [] \<Rightarrow> st
      | (m, buttonEl) # rest \<Rightarrow>
          (let st = st\<lparr>mediaRequests := rest\<rparr> in
           if granted then
             (let st = st\<lparr>audioContext := True, processorConnected := True, tracksLive := True,
                          mediaRecorder := True, isRecording := True,
                          activeRecordingMode := Some m, activeRecordingTarget := Some buttonEl,
                          recordingButtons := insert buttonEl (recordingButtons st),
                          navAwaitingResponse := False, awaitingRealtimeResponse := False\<rparr>;
                  st = setNavResponding False st;
                  st = updateConnectionStatus Recording ''Listening...'' st
              in st\<lparr>hasShownAudioIndicator := False\<rparr>)
           else addMessage ''Could not access microphone. Please check permissions.''
                  Bot None True st))"

definition stopRecording :: "state \<Rightarrow> state" where
  "stopRecording st =
     (let st = st\<lparr>isRecording := False\<rparr>;
          st = (if mediaRecorder st
                then st\<lparr>processorConnected := False, tracksLive := False\<rparr> else st);
          st = (if audioContext st then st\<lparr>audioContext := False\<rparr> else st);
          st = (if wsOpen st then st\<lparr>sent := sent st @ [AudioStreamEnd]\<rparr> else st);
          st = (case activeRecordingTarget st of
                  Some b \<Rightarrow> st\<lparr>recordingButtons := recordingButtons st - {b}\<rparr>
                | None \<Rightarrow> st);
          st = (if activeRecordingMode st = Some Nav
                then st\<lparr>navAwaitingResponse := True\<rparr> else st);
          st = st\<lparr>awaitingRealtimeResponse := True, activeRecordingMode := None,
                  activeRecordingTarget := None\<rparr>
      in updateConnectionStatus Connected ''Processing...'' st)"

definition toggleRecording :: "mode \<Rightarrow> button \<Rightarrow> state \<Rightarrow> state" where
  "toggleRecording m buttonEl st =
     (if isRecording st then stopRecording st else startRecording m buttonEl st)"

text \<open>\<open>stopRecording\<close> of the live-chat page, which has one record button and a status
  line of its own.\<close>

definition lcStopRecording :: "state \<Rightarrow> state" where
  "lcStopRecording st =
     (let st = st\<lparr>isRecording := False\<rparr>;
          st = (if mediaRecorder st
                then st\<lparr>processorConnected := False, tracksLive := False\<rparr> else st);
          st = (if audioContext st then st\<lparr>audioContext := False\<rparr> else st);
          st = (if wsOpen st then st\<lparr>sent := sent st @ [AudioStreamEnd]\<rparr> else st)
      in st\<lparr>recordingButtons := recordingButtons st - {MicButton},
            statusMessage := ''Processing...''\<rparr>)"


subsection \<open>Capture encoding\<close>

text \<open>
  A sample of the \<open>Float32Array\<close> is a single-precision number; the source computes
  with it in double precision. The operations it applies to a sample are exact there:
  \<open>Math.min\<close> and \<open>Math.max\<close> select one of their arguments, and the product of a
  single-precision value (24 significant bits) with \<open>0x8000\<close> or \<open>0x7FFF\<close> (at most
  15 bits) fits the 53 bits of a double.
\<close>

fun mathMin :: "float \<Rightarrow> float \<Rightarrow> float" where
  "mathMin NaN _ = NaN"
| "mathMin _ NaN = NaN"
| "mathMin NegInfinity _ = NegInfinity"
| "mathMin _ NegInfinity = NegInfinity"
| "mathMin PosInfinity y = y"
| "mathMin x PosInfinity = x"
| "mathMin (Finite a) (Finite b) = Finite (min a b)"

fun mathMax :: "float \<Rightarrow> float \<Rightarrow> float" where
  "mathMax NaN _ = NaN"
| "mathMax _ NaN = NaN"
| "mathMax PosInfinity _ = PosInfinity"
| "mathMax _ PosInfinity = PosInfinity"
| "mathMax NegInfinity y = y"
| "mathMax x NegInfinity = x"
| "mathMax (Finite a) (Finite b) = Finite (max a b)"

fun lessThanZero :: "float \<Rightarrow> bool" where
  "lessThanZero (Finite a) = (a < 0)"
| "lessThanZero NegInfinity = True"
| "lessThanZero _ = False"

text \<open>The product with a positive constant.\<close>

fun timesConst :: "float \<Rightarrow> rat \<Rightarrow> float" where
  "timesConst (Finite a) k = Finite (a * k)"
| "timesConst x k = x"

text \<open>Storing into an \<open>Int16Array\<close> (\<open>ToInt16\<close>): NaN and the infinities give 0, a
  finite value is truncated towards zero and wrapped to 16 bits.\<close>

fun toInt16 :: "float \<Rightarrow> 16 word" where
  "toInt16 (Finite a) = word_of_int (truncateToZero a)"
| "toInt16 _ = 0"

definition convertSample :: "float \<Rightarrow> 16 word" where
  "convertSample x =
     (let s = mathMax (Finite (- 1)) (mathMin (Finite 1) x)
      in toInt16 (if lessThanZero s then timesConst s 32768 else timesConst s 32767))"

text \<open>\<open>new Uint8Array(pcmData.buffer)\<close>: the bytes of the 16-bit values in the byte order
  of the platform, taken to be little-endian.\<close>

definition int16Bytes :: "16 word \<Rightarrow> byte list" where
  "int16Bytes w = [ucast w, ucast (drop_bit 8 w)]"

definition pcmBuffer :: "float list \<Rightarrow> byte list" where
  "pcmBuffer inputData = concat (map (\<lambda>x. int16Bytes (convertSample x)) inputData)"

definition onaudioprocess :: "float list \<Rightarrow> state \<Rightarrow> state" where
  "onaudioprocess inputData st =
     (if \<not> isRecording st \<or> \<not> wsOpen st then st
      else st\<lparr>sent := sent st @ [AudioFrame (btoa (pcmBuffer inputData)) ''audio/pcm;rate=16000'']\<rparr>)"

text \<open>The callback of the live-chat page converts first and checks the socket last.\<close>

definition lcOnaudioprocess :: "float list \<Rightarrow> state \<Rightarrow> state" where
  "lcOnaudioprocess inputData st =
     (if \<not> isRecording st then st
      else
        (let base64Audio = btoa (pcmBuffer inputData)
         in if wsOpen st
            then st\<lparr>sent := sent st @ [AudioFrame base64Audio ''audio/pcm;rate=16000'']\<rparr>
            else st))"


section \<open>The live-chat page\<close>

text \<open>
  The script of the stand-alone page: the same assembler, a playback queue of its own
  (without a reference to the active element, and with a third handler on each element),
  a text input that is sent over the socket, and no assist overlay. \<open>stopRecording\<close> and
  the capture callback of this page are \<open>lcStopRecording\<close> and \<open>lcOnaudioprocess\<close>
  above.
\<close>

definition lcAddMessage :: "string \<Rightarrow> sender \<Rightarrow> state \<Rightarrow> state" where
  "lcAddMessage body type st =
     st\<lparr>chatMessages := chatMessages st @ [Message body type None False]\<rparr>"

definition addSystemMessage :: "string \<Rightarrow> bool \<Rightarrow> state \<Rightarrow> state" where
  "addSystemMessage body isError st =
     st\<lparr>chatMessages := chatMessages st @ [Message body System None isError]\<rparr>"

definition lcBufferAudioChunk :: "string option \<Rightarrow> string option \<Rightarrow> state \<Rightarrow> state" where
  "lcBufferAudioChunk base64Audio mimeType st =
     (if \<not> truthy base64Audio then st
      else (case atob (the base64Audio) of
              None \<Rightarrow> addSystemMessage ''Error playing audio response'' True st
            | Some bytes \<Rightarrow>
                if length bytes = 0 then st
                else st\<lparr>pendingAudioChunks := pendingAudioChunks st @ [bytes],
                        pendingAudioMimeType :=
                          jsOr mimeType
                            (jsOr (pendingAudioMimeType st) (Some ''audio/pcm;rate=24000''))\<rparr>))"

text \<open>The sign that two literals of this script begin with, with the bytes it has in
  the source file.\<close>

definition lcSpeaker :: string where
  "lcSpeaker = [CHR 0xC3, CHR 0xB0, CHR 0xC5, CHR 0xB8, CHR 0xE2, CHR 0x80, CHR 0x9D,
                CHR 0xC5, CHR 0xA0]"

definition lcPlayNextAudio :: "state \<Rightarrow> state" where
  "lcPlayNextAudio st =
     (case audioQueue st of
        [] \<Rightarrow>
          st\<lparr>isPlayingAudio := False, hasShownAudioIndicator := False,
             statusMessage := ''Ready! Click to start recording''\<rparr>
      | audioUrl # rest \<Rightarrow>
          st\<lparr>isPlayingAudio := True, audioQueue := rest,
             playing := playing st @ [audioUrl], started := started st @ [audioUrl],
             statusMessage := lcSpeaker @ '' Playing response...''\<rparr>)"

text \<open>The handlers of the element made for \<open>audioUrl\<close>: \<open>onended\<close> and \<open>onerror\<close>
  (their bodies are the same but for the console), \<open>onloadedmetadata\<close> with the duration
  that the element reports, and the rejection of \<open>audio.play()\<close>. The metadata handler
  revokes the URL and advances the queue; it does not stop the element.\<close>

definition lcAudioFinished :: "url \<Rightarrow> state \<Rightarrow> state" where
  "lcAudioFinished audioUrl st =
     lcPlayNextAudio (st\<lparr>revoked := revoked st @ [audioUrl],
                         playing := removeAll audioUrl (playing st)\<rparr>)"

definition lcLoadedMetadata :: "url \<Rightarrow> float \<Rightarrow> state \<Rightarrow> state" where
  "lcLoadedMetadata audioUrl duration st =
     (if duration = Finite 0 \<or> duration = NaN
      then lcPlayNextAudio (st\<lparr>revoked := revoked st @ [audioUrl]\<rparr>)
      else st)"

definition lcPlayRejected :: "state \<Rightarrow> state" where
  "lcPlayRejected st = addSystemMessage ''Click anywhere to enable audio playback'' False st"

definition lcFinalizeAudioResponse :: "state \<Rightarrow> state" where
  "lcFinalizeAudioResponse st =
     (if length (pendingAudioChunks st) = 0 then st
      else
        (let pcmBytes = concatUint8Arrays (pendingAudioChunks st);
             sampleRate =
               (case getSampleRateFromMime (pendingAudioMimeType st) of
                  None \<Rightarrow> Finite 24000
                | Some r \<Rightarrow> if r = Finite 0 \<or> r = NaN then Finite 24000 else r);
             wavBlob = createWavBlob pcmBytes sampleRate;
             audioUrl = length (objectURLs st);
             st = st\<lparr>objectURLs := objectURLs st @ [wavBlob],
                     audioQueue := audioQueue st @ [audioUrl],
                     pendingAudioChunks := [], pendingAudioMimeType := None\<rparr>;
             st = (if \<not> hasShownAudioIndicator st
                   then (addSystemMessage (lcSpeaker @ '' Playing audio response...'') False st)
                          \<lparr>hasShownAudioIndicator := True\<rparr>
                   else st)
         in if \<not> isPlayingAudio st then lcPlayNextAudio st else st))"

datatype lc_message =
  LcConnected
  | LcSetupComplete
  | LcText string
  | LcAudio "string option" "string option"
  | LcTurnComplete
  | LcError string
  | LcToolCall
  | LcTranscription string
  | LcOther

definition handleServerMessage :: "lc_message \<Rightarrow> state \<Rightarrow> state" where
  "handleServerMessage message st =
     (case message of
        LcConnected \<Rightarrow> addSystemMessage ''Connected to OpenAI Realtime'' False st
      | LcSetupComplete \<Rightarrow> st
      | LcText content \<Rightarrow> lcAddMessage content Bot st
      | LcAudio audio mime_type \<Rightarrow> lcBufferAudioChunk audio mime_type st
      | LcTurnComplete \<Rightarrow> lcFinalizeAudioResponse (st\<lparr>statusMessage := ''Response complete''\<rparr>)
      | LcError content \<Rightarrow> addSystemMessage (''Error: '' @ content) True st
      | LcToolCall \<Rightarrow> addSystemMessage ''Using tools...'' False st
      | LcTranscription content \<Rightarrow> lcAddMessage content User st
      | LcOther \<Rightarrow> st)"

text \<open>\<open>startRecording\<close> of this page awaits the microphone before it does anything
  else; \<open>lcStartRecordingReply\<close> is its continuation, with the stream (\<open>True\<close>) or in
  the \<open>catch\<close> block (\<open>False\<close>).\<close>

definition lcToggleRecording :: "state \<Rightarrow> state" where
  "lcToggleRecording st =
     (if isRecording st then lcStopRecording st
      else st\<lparr>mediaRequests := mediaRequests st @ [(Chat, MicButton)]\<rparr>)"

definition lcStartRecordingReply :: "bool \<Rightarrow> state \<Rightarrow> state" where
  "lcStartRecordingReply granted st =
     (case mediaRequests st of
        [] \<Rightarrow> st
      | request # rest \<Rightarrow>
          (let st = st\<lparr>mediaRequests := rest\<rparr> in
           if granted then
             st\<lparr>audioContext := True, processorConnected := True, tracksLive := True,
                mediaRecorder := True, isRecording := True,
                recordingButtons := insert MicButton (recordingButtons st),
                statusMessage := ''Recording... Click to stop'',
                hasShownAudioIndicator := False\<rparr>
           else st\<lparr>statusMessage := ''Failed to access microphone'',
                   alerts := alerts st
                     @ [''Could not access microphone. Please check permissions.'']\<rparr>))"

definition sendTextMessage :: "state \<Rightarrow> state" where
  "sendTextMessage st =
     (let message = trim (messageInput st) in
      if message = [] \<or> \<not> wsOpen st then st
      else
        (let st = lcAddMessage message User st;
             st = st\<lparr>sent := sent st
                       @ [TextFrame message
                            (if currentMode st = TextMode then [''text'']
                             else [''audio'', ''text''])]\<rparr>
         in st\<lparr>messageInput := [], statusMessage := ''Waiting for response...''\<rparr>))"

definition switchMode :: "input_mode \<Rightarrow> state \<Rightarrow> state" where
  "switchMode m st =
     st\<lparr>currentMode := m,
        statusMessage := (if m = AudioMode then ''Click to start recording''
                          else ''Type your message below'')\<rparr>"

text \<open>The tasks of this page.\<close>

datatype lc_event =
  LcLive lc_message
  | LcAudioEnded url
  | LcAudioFailed url
  | LcLoadedMetadata url float
  | LcPlayRejected
  | LcToggleRecording
  | LcMediaSettled bool
  | LcAudioProcess "float list"
  | LcTypeText string
  | LcSendText
  | LcSwitchMode input_mode
  | LcSocketOpened
  | LcSocketClosed

definition lcStep :: "lc_event \<Rightarrow> state \<Rightarrow> state" where
  "lcStep ev st =
     (case ev of
        LcLive message \<Rightarrow> handleServerMessage message st
      | LcAudioEnded u \<Rightarrow> lcAudioFinished u st
      | LcAudioFailed u \<Rightarrow> lcAudioFinished u st
      | LcLoadedMetadata u duration \<Rightarrow> lcLoadedMetadata u duration st
      | LcPlayRejected \<Rightarrow> lcPlayRejected st
      | LcToggleRecording \<Rightarrow> lcToggleRecording st
      | LcMediaSettled granted \<Rightarrow> lcStartRecordingReply granted st
      | LcAudioProcess inputData \<Rightarrow> lcOnaudioprocess inputData st
      | LcTypeText s \<Rightarrow> st\<lparr>messageInput := s\<rparr>
      | LcSendText \<Rightarrow> sendTextMessage st
      | LcSwitchMode m \<Rightarrow> switchMode m st
      | LcSocketOpened \<Rightarrow>
          st\<lparr>wsOpen := True, connectionStatus := (Connected, ''Connected''),
             statusMessage := ''Ready! Click to start recording''\<rparr>
      | LcSocketClosed \<Rightarrow>
          st\<lparr>wsOpen := False, connectionStatus := (Disconnected, ''Disconnected''),
             statusMessage := ''Disconnected. Reconnecting...''\<rparr>)"

fun lcRun :: "lc_event list \<Rightarrow> state \<Rightarrow> state" where
  "lcRun [] st = st"
| "lcRun (ev # evs) st = lcRun evs (lcStep ev st)"

section \<open>Events\<close>

text \<open>
  Everything runs as separate tasks of one event loop. An event is one task: an
  envelope from the socket, a request that settles, the fallback timer, an audio element
  that ends or fails, a click on a microphone button, a buffer from the microphone, and
  so on. Each task carries the time at which it runs.
\<close>

datatype event =
  Live live_message
  | AssistSettled assist_outcome
  | NavTimerDue
  | AudioEnded url
  | AudioFailed url
  | PlayRejected
  | SpeechDone
  | ToggleRecording mode button
  | MediaSettled bool
  | AudioProcess "float list"
  | TypeMessage string
  | SendMessage
  | QuerySettled query_outcome
  | FileChosen "string option"
  | UploadSettled upload_outcome
  | SocketOpened
  | SocketClosed

definition step :: "(string \<Rightarrow> json option) \<Rightarrow> nat \<Rightarrow> event \<Rightarrow> state \<Rightarrow> state" where
  "step JSON_parse now ev st =
     (case ev of
        Live message \<Rightarrow> handleLiveMessage JSON_parse now message st
      | AssistSettled outcome \<Rightarrow> handleNavAssistReply now outcome st
      | NavTimerDue \<Rightarrow> fireNavTimeout now st
      | AudioEnded u \<Rightarrow> audioFinished u st
      | AudioFailed u \<Rightarrow> audioFinished u st
      | PlayRejected \<Rightarrow> playRejected st
      | SpeechDone \<Rightarrow> updateConnectionStatus Connected ''Ready'' st
      | ToggleRecording m b \<Rightarrow> toggleRecording m b st
      | MediaSettled granted \<Rightarrow> startRecordingReply granted st
      | AudioProcess inputData \<Rightarrow> onaudioprocess inputData st
      | TypeMessage s \<Rightarrow> st\<lparr>messageInput := s\<rparr>
      | SendMessage \<Rightarrow> handleSendMessage now st
      | QuerySettled outcome \<Rightarrow> handleSendMessageReply now outcome st
      | FileChosen file \<Rightarrow> handleFileUpload file st
      | UploadSettled outcome \<Rightarrow> handleFileUploadReply outcome st
      | SocketOpened \<Rightarrow> updateConnectionStatus Connected ''Ready'' (st\<lparr>wsOpen := True\<rparr>)
      | SocketClosed \<Rightarrow> updateConnectionStatus Disconnected ''Disconnected'' (st\<lparr>wsOpen := False\<rparr>))"

fun run :: "(string \<Rightarrow> json option) \<Rightarrow> (nat \<times> event) list \<Rightarrow> state \<Rightarrow> state" where
  "run JSON_parse [] st = st"
| "run JSON_parse ((now, ev) # evs) st = run JSON_parse evs (step JSON_parse now ev st)"

text \<open>The page as the script's declarations leave it, before the socket has opened.\<close>

definition initial :: state where
  "initial =
     \<lparr>sessionId = None, isProcessing = False, isRecording = False, wsOpen = False,
      audioContext = False, mediaRecorder = False, pendingAudioChunks = [],
      pendingAudioMimeType = None, audioQueue = [], isPlayingAudio = False,
      hasShownAudioIndicator = False, activeRecordingTarget = None,
      activeRecordingMode = None, navAwaitingResponse = False, lastResponseText = None,
      navResponseTimeout = None, navSuppressRealtime = False,
      awaitingRealtimeResponse = False, activeAudio = None, chatMessages = [],
      messageInput = [], sendButtonDisabled = False, uploadStatus = ([], []),
      uploadButtonDisabled = False, connectionStatus = (Connecting, ''Connecting...''),
      statusMessage = [], navResponding = False, recordingButtons = {},
      currentPage = ''dashboard'', scheduledNavigation = [], sent = [], spoken = [],
      speechSynthesis = True, objectURLs = [], revoked = [], playing = [], paused = [], started = [],
      processorConnected = False, tracksLive = False, assistInFlight = 0,
      queryInFlight = None, uploadInFlight = [], mediaRequests = [],
      currentMode = AudioMode, alerts = []\<rparr>"

text \<open>A parser that rejects every text: enough to run texts that are not wrapped in
  braces, which \<open>isNavigationPayload\<close> never hands to the parser.\<close>

definition noJSON :: "string \<Rightarrow> json option" where
  "noJSON s = None"

section \<open>Vocabulary of the properties\<close>

text \<open>The fragment that the payload of an audio envelope decodes to; empty when there is
  no payload or it is not base64.\<close>

definition decoded :: "string option \<Rightarrow> byte list" where
  "decoded audio =
     (if truthy audio then (case atob (the audio) of None \<Rightarrow> [] | Some bytes \<Rightarrow> bytes) else [])"

text \<open>The sample rate that a tag stands for: the number after its first \<open>rate=\<close>, and
  24000 when there is no tag, no such number, or the number is 0.\<close>

definition declaredRate :: "string option \<Rightarrow> float" where
  "declaredRate mimeType =
     (case getSampleRateFromMime mimeType of
        None \<Rightarrow> Finite 24000
      | Some r \<Rightarrow> if r = Finite 0 \<or> r = NaN then Finite 24000 else r)"

definition navTurn :: state where
  "navTurn = run noJSON [(0, SocketOpened), (10, ToggleRecording Nav NavMicButton),
     (20, MediaSettled True), (30, ToggleRecording Nav NavMicButton)] initial"

definition overflowTurn :: state where
  "overflowTurn = navTurn\<lparr>pendingAudioChunks := replicate 16 (replicate (2 ^ 28) 1)\<rparr>"

definition overflowClip :: "byte list" where
  "overflowClip = last (objectURLs (handleLiveMessage noJSON 40 TurnComplete overflowTurn))"

text \<open>A nav turn that the assist overlay has claimed: the transcript arrived, the lookup
  answered with a message, an action and \<open>handled = true\<close>.\<close>

definition claimedTurn :: state where
  "claimedTurn = run noJSON [(40, Live (TranscriptionMsg ''open chat'')),
     (50, AssistSettled (AssistOk (Some ''Opening chat'') (Some [ActOpenChat]) True))] navTurn"

text \<open>\<open>JSON.parse\<close> on the one navigation payload used below.\<close>

definition pageJSON :: "string \<Rightarrow> json option" where
  "pageJSON s = (if s = ''{\"page\":\"players\"}''
                 then Some (JObject [(''page'', JString ''players'')]) else None)"

text \<open>The events that neither complete a turn, nor hand it to the assist overlay, nor
  click a microphone button.\<close>

fun quiet :: "event \<Rightarrow> bool" where
  "quiet (Live TurnComplete) = False"
| "quiet (AssistSettled (AssistOk message actions handled)) = (\<not> handled)"
| "quiet (ToggleRecording m b) = False"
| "quiet _ = True"

text \<open>
  The handlers \<open>onended\<close> and \<open>onerror\<close> stay on an element after it has ended or
  failed and after \<open>resetAudioPlaybackState\<close> has paused it, and each of them advances
  the queue whenever it runs. \<open>fromPlaying\<close> says of a task that, if it reports the end
  or the failure of an element, that element is playing; \<open>reportsFromPlaying\<close> says
  it of every task of a trace. On the live-chat page the handler \<open>onloadedmetadata\<close>
  advances the queue too when the duration is 0 or NaN, while the element goes on to end
  or fail: \<open>lcFromPlaying\<close> asks in addition that no such duration is reported.
\<close>

definition fromPlaying :: "event \<Rightarrow> state \<Rightarrow> bool" where
  "fromPlaying ev st =
     (case ev of
        AudioEnded u \<Rightarrow> u \<in> set (playing st)
      | AudioFailed u \<Rightarrow> u \<in> set (playing st)
      | _ \<Rightarrow> True)"

fun reportsFromPlaying ::
  "(string \<Rightarrow> json option) \<Rightarrow> (nat \<times> event) list \<Rightarrow> state \<Rightarrow> bool" where
  "reportsFromPlaying P [] st = True"
| "reportsFromPlaying P ((now, ev) # evs) st =
     (fromPlaying ev st \<and> reportsFromPlaying P evs (step P now ev st))"

definition lcFromPlaying :: "lc_event \<Rightarrow> state \<Rightarrow> bool" where
  "lcFromPlaying ev st =
     (case ev of
        LcAudioEnded u \<Rightarrow> u \<in> set (playing st)
      | LcAudioFailed u \<Rightarrow> u \<in> set (playing st)
      | LcLoadedMetadata u duration \<Rightarrow> duration \<noteq> Finite 0 \<and> duration \<noteq> NaN
      | _ \<Rightarrow> True)"

fun lcReportsFromPlaying :: "lc_event list \<Rightarrow> state \<Rightarrow> bool" where
  "lcReportsFromPlaying [] st = True"
| "lcReportsFromPlaying (ev # evs) st =
     (lcFromPlaying ev st \<and> lcReportsFromPlaying evs (lcStep ev st))"

text \<open>The 16-bit value the capture path is to produce for a finite sample.\<close>

definition pcmValue :: "rat \<Rightarrow> int" where
  "pcmValue q =
     (let s = max (- 1) (min 1 q)
      in truncateToZero (if s < 0 then s * 32768 else s * 32767))"

text \<open>The page with its socket open and nothing recording; and a recording whose socket
  has closed.\<close>

definition ready :: state where
  "ready = run noJSON [(0, SocketOpened)] initial"

definition recordingOffline :: state where
  "recordingOffline = run noJSON [(0, SocketOpened), (10, ToggleRecording Chat MicButton),
     (20, MediaSettled True), (30, SocketClosed)] initial"

text \<open>
  An audio envelope is forwarded to the assembler when a realtime response is awaited and
  the assist overlay has not claimed the turn.
\<close>

definition forwarded :: "state \<Rightarrow> bool" where
  "forwarded st =
     (awaitingRealtimeResponse st \<and> \<not> (navSuppressRealtime st \<and> navAwaitingResponse st))"

text \<open>
  What the assembler holds, told from the tasks alone: the fragments buffered and the tag
  remembered. A forwarded envelope whose payload decodes to a non-empty fragment adds that
  fragment, and its tag, when not empty, replaces the tag remembered (with no tag at all,
  the default tag is remembered). The completion of a turn empties the buffer, and
  forgets the tag when it assembles a clip. A click that starts a recording empties both.
  No other task touches them.
\<close>

fun assembler ::
  "event \<Rightarrow> state \<Rightarrow> byte list list \<times> string option \<Rightarrow> byte list list \<times> string option" where
  "assembler (Live (AudioMsg audio mime_type)) st (fs, g) =
     (if forwarded st \<and> decoded audio \<noteq> []
      then (fs @ [decoded audio],
            if truthy mime_type then mime_type
            else if truthy g then g else Some ''audio/pcm;rate=24000'')
      else (fs, g))"
| "assembler (Live TurnComplete) st (fs, g) =
     ([], if navSuppressRealtime st \<or> fs = [] then g else None)"
| "assembler (ToggleRecording m b) st (fs, g) = (if isRecording st then (fs, g) else ([], None))"
| "assembler ev st (fs, g) = (fs, g)"

fun buffered ::
  "(string \<Rightarrow> json option) \<Rightarrow> (nat \<times> event) list \<Rightarrow> state
     \<Rightarrow> byte list list \<times> string option \<Rightarrow> byte list list \<times> string option" where
  "buffered P [] st b = b"
| "buffered P ((now, ev) # evs) st b = buffered P evs (step P now ev st) (assembler ev st b)"

text \<open>The fragments buffered and the tag remembered after a trace from a state.\<close>

definition fragments ::
  "(string \<Rightarrow> json option) \<Rightarrow> (nat \<times> event) list \<Rightarrow> state \<Rightarrow> byte list list" where
  "fragments P evs st =
     fst (buffered P evs st (pendingAudioChunks st, pendingAudioMimeType st))"

definition governingTag ::
  "(string \<Rightarrow> json option) \<Rightarrow> (nat \<times> event) list \<Rightarrow> state \<Rightarrow> string option" where
  "governingTag P evs st =
     snd (buffered P evs st (pendingAudioChunks st, pendingAudioMimeType st))"

definition bufferView :: "state \<Rightarrow> byte list list \<times> string option" where
  "bufferView st = (pendingAudioChunks st, pendingAudioMimeType st)"

text \<open>
  Two turns after a nav command. In the first, a text envelope, a timer task and a failed
  assist lookup come between two tagged audio envelopes. In the second the user starts the
  next recording after the first audio envelope, and an untagged one follows before the
  microphone is granted.
\<close>

definition mixedTurn :: "(nat \<times> event) list" where
  "mixedTurn = [(40, Live (TranscriptionMsg ''open chat'')),
     (42, Live (AudioMsg (Some ''AQID'') (Some ''audio/pcm;rate=16000''))),
     (45, Live (TextMsg ''Hello'')), (50, NavTimerDue), (52, AssistSettled AssistFailed),
     (55, Live (AudioMsg (Some ''BAUG'') (Some ''audio/pcm;rate=8000'')))]"

definition restartedTurn :: "(nat \<times> event) list" where
  "restartedTurn = [(42, Live (AudioMsg (Some ''AQID'') (Some ''audio/pcm;rate=16000''))),
     (45, ToggleRecording Nav NavMicButton),
     (55, Live (AudioMsg (Some ''BAUG'') None))]"

text \<open>
  A third trace: the user starts the next recording at once; a tagged fragment of the
  running turn still arrives, then the assist lookup claims that turn and the turn
  completes; the new recording is granted and stopped, and the answer to it is one
  untagged fragment.
\<close>

definition staleTurn :: "(nat \<times> event) list" where
  "staleTurn = [(40, Live (TranscriptionMsg ''open chat'')),
     (41, ToggleRecording Nav NavMicButton),
     (42, Live (AudioMsg (Some ''AQID'') (Some ''audio/pcm;rate=16000''))),
     (45, AssistSettled (AssistOk (Some ''Opening chat'') None True)),
     (50, Live TurnComplete),
     (55, MediaSettled True),
     (60, ToggleRecording Nav NavMicButton),
     (65, Live (AudioMsg (Some ''BAUG'') None))]"

text \<open>A nav turn whose transcript and first text have arrived: the fallback timer is
  armed.\<close>

definition armedTurn :: state where
  "armedTurn = run noJSON [(40, Live (TranscriptionMsg ''open chat'')),
     (50, Live (TextMsg ''Hello''))] navTurn"

text \<open>
  The tasks that leave an armed fallback as it is: every task but a text envelope that is
  not a navigation payload, a navigate envelope with a message (both arm the timer anew
  for their own text), an audio envelope, the completion of the turn, an assist outcome
  with \<open>handled = true\<close>, a click on a microphone button and the grant of the
  microphone.
\<close>

fun calm :: "(string \<Rightarrow> json option) \<Rightarrow> event \<Rightarrow> bool" where
  "calm P (Live (TextMsg content)) = isNavigationPayload P content"
| "calm P (Live (AudioMsg audio mime_type)) = False"
| "calm P (Live (NavigateMsg message target_route)) = (\<not> truthy message)"
| "calm P (Live TurnComplete) = False"
| "calm P (AssistSettled (AssistOk message actions handled)) = (\<not> handled)"
| "calm P (ToggleRecording m b) = False"
| "calm P (MediaSettled granted) = (\<not> granted)"
| "calm P ev = True"

text \<open>A task that leaves the fallback armed until the timer is due: a timer task among
  them runs before that time.\<close>

definition calmUntil :: "(string \<Rightarrow> json option) \<Rightarrow> nat \<Rightarrow> nat \<times> event \<Rightarrow> bool" where
  "calmUntil P due e = (calm P (snd e) \<and> (snd e = NavTimerDue \<longrightarrow> fst e < due))"

text \<open>An assist outcome that carries a message: the message becomes the candidate for
  the speech fallback.\<close>

fun carriesMessage :: "event \<Rightarrow> bool" where
  "carriesMessage (AssistSettled (AssistOk message actions handled)) = truthy message"
| "carriesMessage ev = False"

definition armedView ::
  "state \<Rightarrow> bool \<times> bool \<times> byte list list \<times> bool \<times> timer option \<times> (string \<times> lang) list" where
  "armedView st =
     (navAwaitingResponse st, navSuppressRealtime st, pendingAudioChunks st, speechSynthesis st,
      navResponseTimeout st, spoken st)"

text \<open>A nav turn on a browser without speech synthesis.\<close>

definition muteTurn :: state where
  "muteTurn = navTurn\<lparr>speechSynthesis := False\<rparr>"

text \<open>The events of a trace among which no recording is started: a click on a microphone
  button only while a recording is active (it stops it).\<close>

fun noRecordingStart :: "(string \<Rightarrow> json option) \<Rightarrow> (nat \<times> event) list \<Rightarrow> state \<Rightarrow> bool" where
  "noRecordingStart P [] st = True"
| "noRecordingStart P ((now, ev) # evs) st =
     ((case ev of ToggleRecording m b \<Rightarrow> isRecording st | _ \<Rightarrow> True)
      \<and> noRecordingStart P evs (step P now ev st))"

text \<open>The consistency of the playback queue, kept by every task. A URL is the index of
  its blob, so a smaller URL was enqueued earlier.\<close>

definition queueOk ::
  "url list \<Rightarrow> bool \<Rightarrow> url option \<Rightarrow> url list \<Rightarrow> url list \<Rightarrow> url list \<Rightarrow> url list
     \<Rightarrow> nat \<Rightarrow> bool" where
  "queueOk queue isPlaying active pl stt rv pa n =
     (pl = (case active of None \<Rightarrow> [] | Some u \<Rightarrow> [u])
      \<and> isPlaying = (active \<noteq> None)
      \<and> (\<not> isPlaying \<longrightarrow> queue = [])
      \<and> sorted_wrt (<) (stt @ queue)
      \<and> (\<forall>u \<in> set (stt @ queue). u < n)
      \<and> (pl \<noteq> [] \<longrightarrow> stt \<noteq> [] \<and> pl = [last stt])
      \<and> set stt = set rv \<union> set pa \<union> set pl)"

definition queueInv :: "state \<Rightarrow> bool" where
  "queueInv st =
     queueOk (audioQueue st) (isPlayingAudio st) (activeAudio st) (playing st) (started st)
       (revoked st) (paused st) (length (objectURLs st))"

definition queueView ::
  "state \<Rightarrow> url list \<times> bool \<times> url option \<times> url list \<times> url list \<times> url list \<times> url list \<times> nat" where
  "queueView st =
     (audioQueue st, isPlayingAudio st, activeAudio st, playing st, started st, revoked st,
      paused st, length (objectURLs st))"

text \<open>Two traces. In both a first turn is answered with audio, which starts to play. In
  the first the user starts the next recording while the microphone request of the
  previous click is still open, so that the second clip is enqueued behind the first; in
  the second the user starts a new recording while the first clip plays.\<close>

definition restarted :: "(nat \<times> event) list" where
  "restarted = [(0, SocketOpened), (10, ToggleRecording Nav NavMicButton), (20, MediaSettled True),
     (30, ToggleRecording Nav NavMicButton), (35, ToggleRecording Nav NavMicButton)]"

definition twoClips :: "(nat \<times> event) list" where
  "twoClips = [(40, Live (AudioMsg (Some ''AQID'') None)), (50, Live TurnComplete),
     (60, MediaSettled True), (70, ToggleRecording Nav NavMicButton),
     (80, Live (AudioMsg (Some ''BAUG'') None)), (90, Live TurnComplete),
     (100, AudioEnded 0)]"

definition interrupted :: "(nat \<times> event) list" where
  "interrupted = [(0, SocketOpened), (10, ToggleRecording Nav NavMicButton),
     (20, MediaSettled True), (30, ToggleRecording Nav NavMicButton),
     (40, Live (AudioMsg (Some ''AQID'') None)), (50, Live TurnComplete),
     (60, ToggleRecording Nav NavMicButton), (70, MediaSettled True),
     (80, ToggleRecording Nav NavMicButton),
     (90, Live (AudioMsg (Some ''BAUG'') None)), (100, Live TurnComplete)]"

text \<open>The same consistency on the live-chat page, which keeps no reference to the active
  element and never pauses one.\<close>

definition lcQueueInv :: "state \<Rightarrow> bool" where
  "lcQueueInv st =
     queueOk (audioQueue st) (isPlayingAudio st)
       (case playing st of [] \<Rightarrow> None | u # us \<Rightarrow> Some u)
       (playing st) (started st) (revoked st) [] (length (objectURLs st))"

definition lcQueueView ::
  "state \<Rightarrow> url list \<times> bool \<times> url list \<times> url list \<times> url list \<times> nat" where
  "lcQueueView st =
     (audioQueue st, isPlayingAudio st, playing st, started st, revoked st,
      length (objectURLs st))"

text \<open>
  Three more traces. On the dashboard, after the trace \<open>interrupted\<close>, the paused
  first clip reports a failure while the second clip plays, and a third turn is answered
  with audio. On the live-chat page three turns are answered with audio while the first
  clip plays; then either the first clip reports a duration of 0 and ends, or it reports
  a duration of two seconds and ends, and the second clip fails.
\<close>

definition staleFailure :: "(nat \<times> event) list" where
  "staleFailure = interrupted @ [(110, AudioFailed 0),
     (120, ToggleRecording Nav NavMicButton), (130, MediaSettled True),
     (140, ToggleRecording Nav NavMicButton),
     (150, Live (AudioMsg (Some ''AQID'') None)), (160, Live TurnComplete)]"

definition lcThreeClips :: "lc_event list" where
  "lcThreeClips = [LcSocketOpened,
     LcLive (LcAudio (Some ''AQID'') None), LcLive LcTurnComplete,
     LcLive (LcAudio (Some ''BAUG'') None), LcLive LcTurnComplete,
     LcLive (LcAudio (Some ''AQID'') None), LcLive LcTurnComplete]"

definition lcSkipped :: "lc_event list" where
  "lcSkipped = lcThreeClips @ [LcLoadedMetadata 0 (Finite 0), LcAudioEnded 0]"

definition lcOrdered :: "lc_event list" where
  "lcOrdered = lcThreeClips @ [LcLoadedMetadata 0 (Finite 2), LcAudioEnded 0, LcAudioFailed 1]"

text \<open>A recording with the socket open.\<close>

definition recordingOnline :: state where
  "recordingOnline = run noJSON [(0, SocketOpened), (10, ToggleRecording Chat MicButton),
     (20, MediaSettled True)] initial"

text \<open>The outcomes of the query request that take the \<open>catch\<close> block, and the message
  of the error that the upload's \<open>catch\<close> block receives.\<close>

fun queryFails :: "query_outcome \<Rightarrow> bool" where
  "queryFails QueryFailed = True"
| "queryFails (QueryNotOk status) = True"
| "queryFails (QueryOk content tool_used target_route session_id) = (content = None)"

fun uploadError :: "upload_outcome \<Rightarrow> string option" where
  "uploadError (UploadFailed msg) = Some msg"
| "uploadError (UploadResponse ok detail) =
     (if ok then None else Some (if truthy detail then the detail else ''Upload failed''))"

text \<open>Pages with a request under way: a chat message sent, a file chosen, a transcript
  handed to the assist lookup.\<close>

definition queryPending :: state where
  "queryPending = run noJSON [(0, SocketOpened), (5, TypeMessage ''hello''), (6, SendMessage)]
     initial"

definition uploadPending :: state where
  "uploadPending = run noJSON [(0, SocketOpened), (7, FileChosen (Some ''rules.pdf''))] initial"

definition assistPending :: state where
  "assistPending = run noJSON [(40, Live (TranscriptionMsg ''open chat''))] navTurn"

text \<open>The page while the clip of a first turn plays.\<close>

definition clipPlaying :: state where
  "clipPlaying = run noJSON [(40, Live (AudioMsg (Some ''AQID'') None)), (50, Live TurnComplete)]
     navTurn"

text \<open>
  Two traces after a nav command in which the user starts the next recording at once. In
  the first a fragment of the running turn arrives before the microphone is granted; in
  the second the assist lookup claims the running turn before the microphone is granted.
  In both the new recording is then granted and stopped, and the answer to it is one
  fragment and the completion of the turn.
\<close>

definition carriedFragment :: "(nat \<times> event) list" where
  "carriedFragment = [(40, ToggleRecording Nav NavMicButton),
     (42, Live (AudioMsg (Some ''AQID'') None)),
     (50, MediaSettled True), (60, ToggleRecording Nav NavMicButton),
     (65, Live (AudioMsg (Some ''BAUG'') None)), (70, Live TurnComplete)]"

definition carriedSuppression :: "(nat \<times> event) list" where
  "carriedSuppression = [(40, Live (TranscriptionMsg ''open chat'')),
     (41, ToggleRecording Nav NavMicButton),
     (45, AssistSettled (AssistOk (Some ''Opening chat'') None True)),
     (50, MediaSettled True), (60, ToggleRecording Nav NavMicButton),
     (65, Live (AudioMsg (Some ''BAUG'') None)), (70, Live TurnComplete)]"

section \<open>Properties\<close>

lemma typedSet_at_end:
  "offset + length source \<le> length target \<Longrightarrow>
   take (offset + length source) (typedSet target source offset) = take offset target @ source"
  by (simp add: typedSet_def)

lemma length_typedSet:
  "offset + length source \<le> length target \<Longrightarrow>
   length (typedSet target source offset) = length target"
  by (simp add: typedSet_def)

lemma take_typedSet:
  "offset + length source \<le> length target \<Longrightarrow>
   take offset (typedSet target source offset) = take offset target"
  by (simp add: typedSet_def)

lemma foldl_length_sum:
  "foldl (\<lambda>sum chunk. sum + length chunk) n chunks = n + length (concat chunks)"
  by (induction chunks arbitrary: n) simp_all

lemma concatLoop_take:
  "offset + length (concat chunks) \<le> length result \<Longrightarrow>
   length (concatLoop chunks offset result) = length result \<and>
   take (offset + length (concat chunks)) (concatLoop chunks offset result)
     = take offset result @ concat chunks"
proof (induction chunks arbitrary: offset result)
  case Nil
  then show ?case by simp
next
  case (Cons chunk chunks)
  let ?r = "typedSet result chunk offset"
  from Cons.prems have fit: "offset + length chunk \<le> length result" by simp
  have len: "length ?r = length result" using fit by (rule length_typedSet)
  have pre: "offset + length chunk + length (concat chunks) \<le> length ?r"
    using Cons.prems len by simp
  have tk: "take (offset + length chunk) ?r = take offset result @ chunk"
    using fit by (rule typedSet_at_end)
  from Cons.IH [OF pre] tk len show ?case by (simp add: add.assoc)
qed

lemma concatUint8Arrays_concat: "concatUint8Arrays chunks = concat chunks"
proof -
  let ?n = "length (concat chunks)"
  have "length (concatLoop chunks 0 (replicate ?n 0)) = ?n \<and>
        take ?n (concatLoop chunks 0 (replicate ?n 0)) = concat chunks"
    using concatLoop_take [of 0 chunks "replicate ?n 0"] by simp
  then have "concatLoop chunks 0 (replicate ?n 0) = concat chunks"
    by (metis order_refl take_all)
  then show ?thesis
    by (simp add: concatUint8Arrays_def foldl_length_sum)
qed

lemma le32_value:
  "unat (of_nat v :: byte) + 256 * unat (of_nat (v div 256) :: byte)
   + 65536 * unat (of_nat (v div 65536) :: byte)
   + 16777216 * unat (of_nat (v div 16777216) :: byte) = v mod 4294967296"
proof -
  have a: "v mod 65536 = 256 * (v div 256 mod 256) + v mod 256"
    using mod_mult2_eq [of v 256 256] by simp
  have b: "v mod 16777216 = 65536 * (v div 65536 mod 256) + v mod 65536"
    using mod_mult2_eq [of v 65536 256] by simp
  have c: "v mod 4294967296 = 16777216 * (v div 16777216 mod 256) + v mod 16777216"
    using mod_mult2_eq [of v 16777216 256] by simp
  have u: "\<And>x. unat (of_nat x :: byte) = x mod 256"
    by (simp add: unat_of_nat)
  show ?thesis
    unfolding u using a b c by simp
qed

lemma length_setUint8 [simp]: "length (setUint8 offset v view) = length view"
  by (simp add: setUint8_def)

lemma length_setUint16 [simp]: "length (setUint16 offset v view) = length view"
  by (simp add: setUint16_def)

lemma length_setUint32 [simp]: "length (setUint32 offset v view) = length view"
  by (simp add: setUint32_def)

lemma length_writeString [simp]: "length (writeString view offset s) = length view"
  by (induction s arbitrary: view offset) simp_all

lemma length_wavHeader [simp]: "length (wavHeader d r) = 44"
  by (simp add: wavHeader_def)

lemma getUint32_setUint8:
  "i < a \<or> a + 3 < i \<Longrightarrow> getUint32 a (setUint8 i v view) = getUint32 a view"
  by (auto simp: getUint32_def setUint8_def)

lemma getUint32_setUint16:
  "i + 1 < a \<or> a + 3 < i \<Longrightarrow> getUint32 a (setUint16 i v view) = getUint32 a view"
  by (auto simp: getUint32_def setUint16_def)

lemma getUint32_setUint32_other:
  "i + 3 < a \<or> a + 3 < i \<Longrightarrow> getUint32 a (setUint32 i v view) = getUint32 a view"
  by (auto simp: getUint32_def setUint32_def)

lemma getUint32_writeString:
  "offset + length s \<le> a \<or> a + 3 < offset \<Longrightarrow>
   getUint32 a (writeString view offset s) = getUint32 a view"
  by (induction s arbitrary: view offset) (auto simp: getUint32_setUint8)

lemma getUint32_setUint32_same:
  "a + 3 < length view \<Longrightarrow> getUint32 a (setUint32 a v view) = v mod 4294967296"
  by (simp add: getUint32_def setUint32_def le32_value)

lemmas header_frame =
  getUint32_setUint8 getUint32_setUint16 getUint32_setUint32_other getUint32_writeString
  getUint32_setUint32_same

lemma wavHeader_dataSize: "getUint32 40 (wavHeader d r) = d mod 4294967296"
  by (simp add: wavHeader_def header_frame)

lemma wavHeader_riffSize: "getUint32 4 (wavHeader d r) = (36 + d) mod 4294967296"
  by (simp add: wavHeader_def header_frame)

lemma toUint32_less: "toUint32 r < 4294967296"
  by (cases r) (simp_all add: nat_less_iff)

lemma wavHeader_sampleRate: "getUint32 24 (wavHeader d r) = toUint32 r"
  using toUint32_less [of r] by (simp add: wavHeader_def header_frame)

lemma createWavBlob_append: "createWavBlob pcm r = wavHeader (length pcm) r @ pcm"
  by (simp add: createWavBlob_def typedSet_def)

lemma getUint32_header:
  "offset + 3 < length hdr \<Longrightarrow> getUint32 offset (hdr @ pcm) = getUint32 offset hdr"
  by (simp add: getUint32_def nth_append)

lemma run_append: "run P (xs @ ys) st = run P ys (run P xs st)"
  by (induction xs arbitrary: st) auto

lemma bufferAudioChunk_pending:
  "pendingAudioChunks (bufferAudioChunk a m st)
     = pendingAudioChunks st @ (if decoded a = [] then [] else [decoded a])"
  by (simp add: bufferAudioChunk_def decoded_def split: option.splits)

lemma bufferAudioChunk_mime:
  "pendingAudioMimeType (bufferAudioChunk a m st)
     = (if decoded a = [] then pendingAudioMimeType st
        else jsOr m (jsOr (pendingAudioMimeType st) (Some ''audio/pcm;rate=24000'')))"
  by (simp add: bufferAudioChunk_def decoded_def split: option.splits)

lemma bufferAudioChunk_frame:
  "awaitingRealtimeResponse (bufferAudioChunk a m st) = awaitingRealtimeResponse st"
  "navSuppressRealtime (bufferAudioChunk a m st) = navSuppressRealtime st"
  "objectURLs (bufferAudioChunk a m st) = objectURLs st"
  by (simp_all add: bufferAudioChunk_def split: option.splits)

lemma bufferAudioChunk_view:
  "bufferView (bufferAudioChunk a m st)
     = (if decoded a = [] then bufferView st
        else (pendingAudioChunks st @ [decoded a],
              jsOr m (jsOr (pendingAudioMimeType st) (Some ''audio/pcm;rate=24000''))))"
  by (simp add: bufferView_def bufferAudioChunk_pending bufferAudioChunk_mime)

lemma turn_complete_clip:
  assumes "\<not> navSuppressRealtime st" "pendingAudioChunks st \<noteq> []"
  shows "objectURLs (handleLiveMessage P t TurnComplete st)
           = objectURLs st @ [createWavBlob (concat (pendingAudioChunks st))
                                (declaredRate (pendingAudioMimeType st))]"
  using assms
  by (simp add: handleLiveMessage_def clearNavSpeechFallback_def finalizeAudioResponse_def
        concatUint8Arrays_concat declaredRate_def setNavResponding_def playNextAudio_def
        addMessage_def updateConnectionStatus_def Let_def split: list.splits)

lemmas handler_defs =
  step_def handleLiveMessage_def toggleRecording_def startRecording_def startRecordingReply_def
  stopRecording_def resetNavAssistState_def resetAudioPlaybackState_def
  clearNavSpeechFallback_def scheduleNavSpeechFallback_def setNavResponding_def
  updateConnectionStatus_def addMessage_def handleNavAssist_def handleNavAssistReply_def
  speakTextResponse_def executeAssistActions_def executeAssistAction_def
  finalizeAudioResponse_def playNextAudio_def bufferAudioChunk_def fireNavTimeout_def
  navTimeoutCallback_def audioFinished_def playRejected_def truthy_def jsOr_def

lemma navTurn_eq:
  "navTurn = initial\<lparr>wsOpen := True, mediaRecorder := True,
       navAwaitingResponse := True, awaitingRealtimeResponse := True,
       connectionStatus := (Connected, ''Processing...''), sent := [AudioStreamEnd]\<rparr>"
  by (simp add: navTurn_def initial_def handler_defs)

lemma navTurn_fields:
  "awaitingRealtimeResponse navTurn" "\<not> navSuppressRealtime navTurn"
  "navAwaitingResponse navTurn"
  "pendingAudioChunks navTurn = []" "pendingAudioMimeType navTurn = None"
  "objectURLs navTurn = []" "navResponseTimeout navTurn = None"
  "spoken navTurn = []" "chatMessages navTurn = []" "speechSynthesis navTurn"
  by (simp_all add: navTurn_eq initial_def)

lemma atob_AQID: "atob ''AQID'' = Some [1, 2, 3]"
  by (simp add: atob_def stripPadding_def isAsciiWhitespace_def b64val_def)

lemma atob_BAUG: "atob ''BAUG'' = Some [4, 5, 6]"
  by (simp add: atob_def stripPadding_def isAsciiWhitespace_def b64val_def)

lemma bitLength_zero [simp]: "bitLength 0 = 0"
  by (simp add: bitLength.simps)

lemma bitLength_pos: "n \<noteq> 0 \<Longrightarrow> bitLength n = Suc (bitLength (n div 2))"
  by (subst bitLength.simps) simp

lemma bitLength_bound: "n < 2 ^ k \<Longrightarrow> bitLength n \<le> k"
proof (induction k arbitrary: n)
  case 0
  then show ?case by simp
next
  case (Suc k)
  show ?case
  proof (cases "n = 0")
    case True
    then show ?thesis by simp
  next
    case False
    from Suc.prems have "n div 2 < 2 ^ k" by simp
    from Suc.IH [OF this] show ?thesis by (simp add: bitLength_pos [OF False])
  qed
qed

lemma numberValue_exact: "n < 2 ^ 53 \<Longrightarrow> numberValue n = Finite (of_nat n)"
proof -
  assume n: "n < 2 ^ 53"
  then have "bitLength n - 53 = 0" using bitLength_bound [of n 53] by simp
  moreover have "n < 2 ^ 1024"
    using n by (rule less_le_trans) simp
  ultimately show ?thesis by (simp add: numberValue_def)
qed

lemma toUint32_nat: "toUint32 (Finite (of_nat n)) = n mod 4294967296"
proof -
  have t: "truncateToZero (of_nat n) = int n" by (simp add: truncateToZero_def)
  have "int n mod 4294967296 = int (n mod 4294967296)" by (simp add: zmod_int)
  then have "nat (int n mod 4294967296) = n mod 4294967296" by (simp only: nat_int)
  then show ?thesis by (simp only: toUint32.simps t)
qed

lemma rate16000: "declaredRate (Some ''audio/pcm;rate=16000'') = Finite 16000"
  by (simp add: declaredRate_def getSampleRateFromMime_def isDigit_def parseInt_def
        digitsValue_def numberValue_exact)

lemma rate8000: "declaredRate (Some ''audio/pcm;rate=8000'') = Finite 8000"
  by (simp add: declaredRate_def getSampleRateFromMime_def isDigit_def parseInt_def
        digitsValue_def numberValue_exact)

lemma rate24000: "declaredRate (Some ''audio/pcm;rate=24000'') = Finite 24000"
  by (simp add: declaredRate_def getSampleRateFromMime_def isDigit_def parseInt_def
        digitsValue_def numberValue_exact)

lemma declaredRate_untagged: "\<not> truthy g \<Longrightarrow> declaredRate g = Finite 24000"
  by (cases g) (simp_all add: declaredRate_def truthy_def getSampleRateFromMime_def)

lemma bitLength_power: "k \<noteq> 0 \<Longrightarrow> 2 ^ (bitLength k - 1) \<le> k"
proof (induction k rule: bitLength.induct)
  case (1 k)
  note bk = bitLength_pos [OF 1(2)]
  show ?case
  proof (cases "k div 2 = 0")
    case True
    then show ?thesis using 1(2) by (simp add: bk)
  next
    case nz: False
    from 1(1) [OF 1(2) nz] have h: "2 ^ (bitLength (k div 2) - 1) \<le> k div 2" .
    have b: "bitLength (k div 2) = Suc (bitLength (k div 2) - 1)"
      by (simp add: bitLength_pos [OF nz])
    have "(2 :: nat) ^ (bitLength k - 1) = 2 * 2 ^ (bitLength (k div 2) - 1)"
      by (subst bk, subst b) simp
    also have "\<dots> \<le> 2 * (k div 2)" using h by simp
    also have "\<dots> \<le> k" by simp
    finally show ?thesis .
  qed
qed

lemma numberValue_zero: "numberValue n = Finite 0 \<longleftrightarrow> n = 0"
proof
  assume "n = 0"
  then show "numberValue n = Finite 0" by (simp add: numberValue_def)
next
  assume z: "numberValue n = Finite 0"
  define ulp :: nat where "ulp = 2 ^ (bitLength n - 53)"
  define q where "q = n div ulp"
  define r where "r = n mod ulp"
  define m where "m = (if 2 * r < ulp \<or> (2 * r = ulp \<and> even q) then q else q + 1) * ulp"
  have u: "0 < ulp" by (simp add: ulp_def)
  from z have "m = 0"
    unfolding numberValue_def Let_def ulp_def [symmetric] q_def [symmetric] r_def [symmetric]
      m_def [symmetric]
    by (simp split: if_splits)
  with u have q0: "q = 0"
    by (auto simp: m_def split: if_splits)
  from q0 have nr: "n = r" using div_mult_mod_eq [of n ulp] by (simp add: q_def r_def)
  have rl: "r < ulp" using u by (simp add: r_def)
  show "n = 0"
  proof (cases "bitLength n \<le> 53")
    case True
    then have "ulp = 1" by (simp add: ulp_def)
    then show ?thesis using nr by (simp add: r_def)
  next
    case False
    then have n0: "n \<noteq> 0" by (cases "n = 0") simp_all
    have e: "bitLength n - 53 + 52 = bitLength n - 1" using False by simp
    have "ulp * 2 ^ 52 = 2 ^ (bitLength n - 53 + 52)"
      unfolding ulp_def by (rule power_add [symmetric])
    then have "ulp * 2 ^ 52 = 2 ^ (bitLength n - 1)" by (simp only: e)
    with bitLength_power [OF n0] have "ulp * 2 ^ 52 \<le> n" by (simp only:)
    moreover have "ulp \<le> ulp * 2 ^ 52" by simp
    ultimately have "ulp \<le> r" using nr by simp
    with rl show ?thesis by simp
  qed
qed

lemma declaredRate_tagged:
  "declaredRate (Some m)
     = (case rateMatch m of
          None \<Rightarrow> Finite 24000
        | Some ds \<Rightarrow> if digitsValue ds = 0 then Finite 24000 else numberValue (digitsValue ds))"
proof (cases "m = []")
  case True
  then show ?thesis by (simp add: declaredRate_def getSampleRateFromMime_def)
next
  case False
  have nan: "numberValue n \<noteq> NaN" for n by (simp add: numberValue_def Let_def)
  show ?thesis
    using False nan numberValue_zero
    by (simp add: declaredRate_def getSampleRateFromMime_def parseInt_def split: option.splits)
qed

subsection \<open>The assembler\<close>

lemma clearNavSpeechFallback_eq: "clearNavSpeechFallback st = st\<lparr>navResponseTimeout := None\<rparr>"
  by (simp add: clearNavSpeechFallback_def)

lemma bufferView_frames [simp]:
  "bufferView (clearNavSpeechFallback st) = bufferView st"
  "bufferView (setNavResponding r st) = bufferView st"
  "bufferView (addMessage body ty tool err st) = bufferView st"
  "bufferView (updateConnectionStatus c l st) = bufferView st"
  "bufferView (scheduleNavSpeechFallback t st) = bufferView st"
  "bufferView (speakTextResponse b st) = bufferView st"
  "bufferView (navigateTo page st) = bufferView st"
  "bufferView (handleNavAssist transcript st) = bufferView st"
  "bufferView (handleSendMessage t st) = bufferView st"
  "bufferView (removeLoadingMessage loadingId st) = bufferView st"
  "bufferView (playRejected st) = bufferView st"
  "bufferView (onaudioprocess inputData st) = bufferView st"
  "bufferView (stopRecording st) = bufferView st"
  by (simp_all add: bufferView_def clearNavSpeechFallback_def setNavResponding_def
        addMessage_def updateConnectionStatus_def scheduleNavSpeechFallback_def
        speakTextResponse_def navigateTo_def handleNavAssist_def handleSendMessage_def
        removeLoadingMessage_def playRejected_def onaudioprocess_def stopRecording_def
        Let_def split: option.splits)

lemma bufferView_updates [simp]:
  "bufferView (st\<lparr>navResponseTimeout := x1\<rparr>) = bufferView st"
  "bufferView (st\<lparr>lastResponseText := x3\<rparr>) = bufferView st"
  "bufferView (st\<lparr>navAwaitingResponse := x4\<rparr>) = bufferView st"
  "bufferView (st\<lparr>awaitingRealtimeResponse := x5\<rparr>) = bufferView st"
  "bufferView (st\<lparr>navSuppressRealtime := x6\<rparr>) = bufferView st"
  "bufferView (st\<lparr>assistInFlight := x9\<rparr>) = bufferView st"
  "bufferView (st\<lparr>messageInput := x10\<rparr>) = bufferView st"
  "bufferView (st\<lparr>wsOpen := x11\<rparr>) = bufferView st"
  "bufferView (st\<lparr>mediaRequests := x12\<rparr>) = bufferView st"
  by (simp_all add: bufferView_def)

lemma bufferView_playNextAudio [simp]: "bufferView (playNextAudio st) = bufferView st"
  by (simp add: bufferView_def playNextAudio_def updateConnectionStatus_def split: list.splits)

lemma bufferView_audioFinished [simp]: "bufferView (audioFinished u st) = bufferView st"
  by (simp add: audioFinished_def Let_def) (simp add: bufferView_def)

lemma bufferView_fireNavTimeout [simp]: "bufferView (fireNavTimeout t st) = bufferView st"
  by (simp add: fireNavTimeout_def navTimeoutCallback_def split: option.splits timer.splits)

lemma bufferView_executeAssistAction [simp]:
  "bufferView (executeAssistAction t st a) = bufferView st"
  by (cases a)
    (simp_all add: executeAssistAction_def openChatView_def showNavGuide_def Let_def
       split: option.splits)

lemma bufferView_executeAssistActions [simp]:
  "bufferView (executeAssistActions t acts st) = bufferView st"
  unfolding executeAssistActions_def
  by (induction acts arbitrary: st) simp_all

lemma bufferView_assist [simp]: "bufferView (handleNavAssistReply t outcome st) = bufferView st"
  by (cases outcome) (simp_all add: handleNavAssistReply_def Let_def split: option.splits)

lemma bufferView_media [simp]: "bufferView (startRecordingReply g st) = bufferView st"
  by (simp add: startRecordingReply_def bufferView_def addMessage_def setNavResponding_def
        updateConnectionStatus_def Let_def split: list.splits prod.splits)

lemma bufferView_query [simp]: "bufferView (handleSendMessageReply t outcome st) = bufferView st"
  by (cases outcome)
    (simp_all add: handleSendMessageReply_def querySucceeded_def removeLoadingMessage_def
       addMessage_def bufferView_def Let_def split: option.splits)

lemma bufferView_upload [simp]:
  "bufferView (handleFileUpload f st) = bufferView st"
  "bufferView (handleFileUploadReply outcome st) = bufferView st"
proof -
  show "bufferView (handleFileUpload f st) = bufferView st"
    by (cases f) (simp_all add: handleFileUpload_def bufferView_def)
  show "bufferView (handleFileUploadReply outcome st) = bufferView st"
  proof (cases "uploadInFlight st")
    case Nil
    then show ?thesis by (simp add: handleFileUploadReply_def)
  next
    case (Cons name rest)
    show ?thesis
    proof (cases outcome)
      case (UploadFailed msg)
      with Cons show ?thesis
        by (simp add: handleFileUploadReply_def bufferView_def)
    next
      case (UploadResponse ok detail)
      with Cons show ?thesis
        by (cases ok) (simp_all add: handleFileUploadReply_def bufferView_def addMessage_def)
    qed
  qed
qed

lemma bufferView_startRecording:
  "bufferView (startRecording m b st) = (if isRecording st then bufferView st else ([], None))"
  by (simp add: startRecording_def resetAudioPlaybackState_def resetNavAssistState_def
        clearNavSpeechFallback_def bufferView_def Let_def split: option.splits)

lemma bufferView_finalize:
  "pendingAudioChunks st \<noteq> [] \<Longrightarrow> bufferView (finalizeAudioResponse st) = ([], None)"
  by (simp add: finalizeAudioResponse_def bufferView_def playNextAudio_def addMessage_def
        updateConnectionStatus_def Let_def split: list.splits)

lemma bufferView_turn_complete:
  "bufferView (handleLiveMessage P t TurnComplete st)
     = ([], if navSuppressRealtime st \<or> pendingAudioChunks st = []
            then pendingAudioMimeType st else None)"
proof (cases "navSuppressRealtime st")
  case True
  then show ?thesis
    by (simp add: handleLiveMessage_def clearNavSpeechFallback_def setNavResponding_def
          bufferView_def)
next
  case False
  show ?thesis
  proof (cases "pendingAudioChunks st = []")
    case True
    with False show ?thesis
      by (simp add: handleLiveMessage_def Let_def clearNavSpeechFallback_def
            setNavResponding_def speakTextResponse_def addMessage_def
            updateConnectionStatus_def bufferView_def split: option.splits)
  next
    case ne: False
    have "pendingAudioChunks (st\<lparr>navResponseTimeout := None\<rparr>) \<noteq> []"
      using ne by simp
    from bufferView_finalize [OF this] False ne show ?thesis
      by (simp add: handleLiveMessage_def Let_def clearNavSpeechFallback_eq
            setNavResponding_def bufferView_def)
  qed
qed

lemma assembler_live:
  "bufferView (handleLiveMessage P t message st) = assembler (Live message) st (bufferView st)"
proof (cases message)
  case (AudioMsg a m)
  show ?thesis
  proof (cases "forwarded st")
    case True
    then have "handleLiveMessage P t (AudioMsg a m) st
                 = setNavResponding True (bufferAudioChunk a m (clearNavSpeechFallback st))"
      by (auto simp: handleLiveMessage_def forwarded_def)
    then show ?thesis
      using True AudioMsg
      by (simp add: bufferAudioChunk_view, simp add: bufferView_def jsOr_def
            clearNavSpeechFallback_def)
  next
    case False
    then show ?thesis
      using AudioMsg by (auto simp: handleLiveMessage_def forwarded_def bufferView_def
            clearNavSpeechFallback_def)
  qed
next
  case TurnComplete
  then show ?thesis by (simp add: bufferView_turn_complete, simp add: bufferView_def)
qed (simp_all add: handleLiveMessage_def Let_def, simp_all add: bufferView_def)

lemma assembler_step: "bufferView (step P t ev st) = assembler ev st (bufferView st)"
proof (cases ev)
  case (Live message)
  then show ?thesis by (simp add: step_def assembler_live)
next
  case (ToggleRecording m b)
  then show ?thesis
    by (simp add: step_def toggleRecording_def bufferView_startRecording, simp add: bufferView_def)
qed (simp_all add: step_def, simp_all add: bufferView_def)

lemma buffered_run: "bufferView (run P evs st) = buffered P evs st (bufferView st)"
  by (induction evs arbitrary: st) (auto simp: assembler_step)

lemma buffered_pair:
  "buffered P evs st (pendingAudioChunks st, pendingAudioMimeType st)
     = (pendingAudioChunks (run P evs st), pendingAudioMimeType (run P evs st))"
  using buffered_run [of P evs st] by (simp add: bufferView_def)

lemma fragments_run: "pendingAudioChunks (run P evs st) = fragments P evs st"
  by (simp add: fragments_def buffered_pair)

lemma governingTag_run: "pendingAudioMimeType (run P evs st) = governingTag P evs st"
  by (simp add: governingTag_def buffered_pair)

lemma completed_clip:
  assumes "\<not> navSuppressRealtime (run P evs st)" "fragments P evs st \<noteq> []"
  shows "objectURLs (run P (evs @ [(t, Live TurnComplete)]) st)
           = objectURLs (run P evs st)
             @ [wavHeader (length (concat (fragments P evs st)))
                  (declaredRate (governingTag P evs st)) @ concat (fragments P evs st)]"
proof -
  have ne: "pendingAudioChunks (run P evs st) \<noteq> []"
    using assms(2) by (simp add: fragments_run)
  have "run P (evs @ [(t, Live TurnComplete)]) st
          = handleLiveMessage P t TurnComplete (run P evs st)"
    by (simp add: run_append step_def)
  then show ?thesis
    using turn_complete_clip [OF assms(1) ne, of P t]
    by (simp add: createWavBlob_append fragments_run governingTag_run)
qed

lemma bufferView_snoc:
  "bufferView (run P (evs @ [(t, ev)]) st) = assembler ev (run P evs st) (bufferView (run P evs st))"
  by (simp add: run_append assembler_step)

lemma hello_plain: "\<not> isNavigationPayload P ''Hello''"
  by (simp add: isNavigationPayload_def trim_def whiteSpace_def)

lemmas trace_defs =
  navTurn_eq initial_def handler_defs Let_def atob_AQID atob_BAUG hello_plain

lemma mixedTurn_run:
  "pendingAudioChunks (run noJSON mixedTurn navTurn) = [[1, 2, 3], [4, 5, 6]]"
  "pendingAudioMimeType (run noJSON mixedTurn navTurn) = Some ''audio/pcm;rate=8000''"
  "\<not> navSuppressRealtime (run noJSON mixedTurn navTurn)"
  "objectURLs (run noJSON mixedTurn navTurn) = []"
  by (simp_all add: mixedTurn_def trace_defs)

lemma restartedTurn_run:
  "pendingAudioChunks (run noJSON restartedTurn navTurn) = [[4, 5, 6]]"
  "pendingAudioMimeType (run noJSON restartedTurn navTurn) = Some ''audio/pcm;rate=24000''"
  "\<not> navSuppressRealtime (run noJSON restartedTurn navTurn)"
  "objectURLs (run noJSON restartedTurn navTurn) = []"
  by (simp_all add: restartedTurn_def trace_defs)

lemma staleTurn_run:
  "pendingAudioChunks (run noJSON staleTurn navTurn) = [[4, 5, 6]]"
  "pendingAudioMimeType (run noJSON staleTurn navTurn) = Some ''audio/pcm;rate=16000''"
  "\<not> navSuppressRealtime (run noJSON staleTurn navTurn)"
  "objectURLs (run noJSON staleTurn navTurn) = []"
  by (simp_all add: staleTurn_def trace_defs isArabicText_def)

text \<open>
  Claim C2, as amended. Take any state of the page and any tasks after it: envelopes of
  every kind, settled requests, timer tasks, clicks, in any order. If, when the turn
  completes, suppression is not set and fragments are buffered (those forwarded and not
  empty since the buffer was last emptied, by a completed turn or by the start of a
  recording), then the completion stores one new clip: after its 44 header bytes come
  exactly these fragments in the order of arrival, so the payload is as long as the
  fragments together. The header fields are 32 bits wide: the data size at offset 40 is
  the payload length modulo \<open>2 ^ 32\<close> and the RIFF size at offset 4 is 36 more, modulo
  \<open>2 ^ 32\<close>; both are exact as long as 36 plus the payload length is below \<open>2 ^ 32\<close>.
\<close>

theorem C2_fragment_conservation:
  assumes "\<not> navSuppressRealtime (run P evs st)" and "fragments P evs st \<noteq> []"
  shows "\<exists>clip. objectURLs (run P (evs @ [(t, Live TurnComplete)]) st)
                   = objectURLs (run P evs st) @ [clip]
          \<and> drop 44 clip = concat (fragments P evs st)
          \<and> length (drop 44 clip) = sum_list (map length (fragments P evs st))
          \<and> getUint32 40 clip = length (drop 44 clip) mod 2 ^ 32
          \<and> getUint32 4 clip = (36 + length (drop 44 clip)) mod 2 ^ 32
          \<and> (36 + length (drop 44 clip) < 2 ^ 32 \<longrightarrow>
                getUint32 40 clip = length (drop 44 clip)
                \<and> getUint32 4 clip = 36 + length (drop 44 clip))"
proof -
  let ?pcm = "concat (fragments P evs st)"
  let ?hdr = "wavHeader (length ?pcm) (declaredRate (governingTag P evs st))"
  let ?clip = "?hdr @ ?pcm"
  have payload: "drop 44 ?clip = ?pcm" by simp
  have len: "length ?pcm = sum_list (map length (fragments P evs st))"
    by (simp add: length_concat)
  have d: "getUint32 40 ?clip = length ?pcm mod 2 ^ 32"
    by (simp add: getUint32_header wavHeader_dataSize)
  have f: "getUint32 4 ?clip = (36 + length ?pcm) mod 2 ^ 32"
    by (simp add: getUint32_header wavHeader_riffSize)
  have exact: "getUint32 40 ?clip = length ?pcm \<and> getUint32 4 ?clip = 36 + length ?pcm"
    if "36 + length ?pcm < 2 ^ 32"
    using that d f by simp
  show ?thesis
    using completed_clip [OF assms, of t] payload len d f exact
    by (intro exI [of _ ?clip]) (simp del: length_drop)
qed

theorem C2_fragment_conservation_witness:
  "\<not> navSuppressRealtime (run noJSON mixedTurn navTurn)
   \<and> fragments noJSON mixedTurn navTurn = [[1, 2, 3], [4, 5, 6]]
   \<and> fragments noJSON restartedTurn navTurn = [[4, 5, 6]]
   \<and> (\<exists>clip. objectURLs (run noJSON (mixedTurn @ [(60, Live TurnComplete)]) navTurn) = [clip]
        \<and> drop 44 clip = [1, 2, 3, 4, 5, 6]
        \<and> getUint32 40 clip = 6
        \<and> getUint32 4 clip = 42)"
proof -
  have fr: "fragments noJSON mixedTurn navTurn = [[1, 2, 3], [4, 5, 6]]"
    "fragments noJSON restartedTurn navTurn = [[4, 5, 6]]"
    using mixedTurn_run(1) restartedTurn_run(1) by (simp_all add: fragments_run)
  then have ne: "fragments noJSON mixedTurn navTurn \<noteq> []" by simp
  from C2_fragment_conservation [OF mixedTurn_run(3) ne, of 60]
  obtain clip where c:
    "objectURLs (run noJSON (mixedTurn @ [(60, Live TurnComplete)]) navTurn)
       = objectURLs (run noJSON mixedTurn navTurn) @ [clip]"
    "drop 44 clip = concat (fragments noJSON mixedTurn navTurn)"
    "getUint32 40 clip = length (drop 44 clip) mod 2 ^ 32"
    "getUint32 4 clip = (36 + length (drop 44 clip)) mod 2 ^ 32"
    by blast
  have d: "drop 44 clip = [1, 2, 3, 4, 5, 6]" using c(2) by (simp add: fr)
  then have l: "length (drop 44 clip) = 6" by (simp del: length_drop)
  have "\<exists>clip. objectURLs (run noJSON (mixedTurn @ [(60, Live TurnComplete)]) navTurn) = [clip]
        \<and> drop 44 clip = [1, 2, 3, 4, 5, 6]
        \<and> getUint32 40 clip = 6
        \<and> getUint32 4 clip = 42"
    using c(1,3,4) d l mixedTurn_run(4) by (intro exI [of _ clip]) (simp del: length_drop)
  then show ?thesis
    using mixedTurn_run(3) fr by blast
qed

lemma length_overflow_payload:
  "length (concat (pendingAudioChunks overflowTurn)) = 4294967296"
  by (simp add: overflowTurn_def length_concat sum_list_replicate)

lemma overflowClip_eq:
  "overflowClip = wavHeader 4294967296 (Finite 24000) @ concat (pendingAudioChunks overflowTurn)"
proof -
  have ns: "\<not> navSuppressRealtime overflowTurn" 
    by (simp add: overflowTurn_def navTurn_fields)
  have ne: "pendingAudioChunks overflowTurn \<noteq> []"
    by (simp add: overflowTurn_def)
  have m: "pendingAudioMimeType overflowTurn = None"
    by (simp add: overflowTurn_def navTurn_fields)
  show ?thesis
    unfolding overflowClip_def turn_complete_clip [OF ns ne]
    by (simp add: createWavBlob_append length_overflow_payload m declaredRate_untagged truthy_def)
qed

text \<open>
  Claim C2 as stated fails for a long payload: sixteen buffered fragments of \<open>2 ^ 28\<close>
  bytes make a payload of \<open>2 ^ 32\<close> bytes, and the header declares a data size of 0
  and a RIFF size of 36. And a fragment buffered during a turn is not in the clip when the
  user has started the next recording after it: in the second trace the fragment
  \<open>[1, 2, 3]\<close> is buffered, the click drops it, and the payload is \<open>[4, 5, 6]\<close>.
\<close>

theorem C2_header_wraps_counterexample:
  "length (drop 44 overflowClip) = 4294967296
   \<and> getUint32 40 overflowClip = 0 \<and> getUint32 4 overflowClip = 36
   \<and> drop 44 overflowClip = concat (pendingAudioChunks overflowTurn)
   \<and> pendingAudioChunks (run noJSON (take 1 restartedTurn) navTurn) = [[1, 2, 3]]
   \<and> drop 44 (last (objectURLs (run noJSON (restartedTurn @ [(60, Live TurnComplete)]) navTurn)))
       = [4, 5, 6]"
proof -
  have a: "pendingAudioChunks (run noJSON (take 1 restartedTurn) navTurn) = [[1, 2, 3]]"
    by (simp add: restartedTurn_def trace_defs)
  have fr: "fragments noJSON restartedTurn navTurn = [[4, 5, 6]]"
    using restartedTurn_run(1) by (simp add: fragments_run)
  then have ne: "fragments noJSON restartedTurn navTurn \<noteq> []" by simp
  have b: "drop 44 (last (objectURLs (run noJSON (restartedTurn @ [(60, Live TurnComplete)])
             navTurn))) = [4, 5, 6]"
    by (simp add: completed_clip [OF restartedTurn_run(3) ne] fr)
  show ?thesis
    using a b
    by (simp add: overflowClip_eq getUint32_header wavHeader_dataSize wavHeader_riffSize
          length_overflow_payload)
qed

lemma completed_rate:
  assumes "\<not> navSuppressRealtime (run P evs st)" "fragments P evs st \<noteq> []"
  shows "getUint32 24 (last (objectURLs (run P (evs @ [(t, Live TurnComplete)]) st)))
           = toUint32 (declaredRate (governingTag P evs st))"
  by (simp add: completed_clip [OF assms] getUint32_header wavHeader_sampleRate)

lemma governingTag_replaced:
  assumes "forwarded (run P evs st)" "decoded a \<noteq> []" "truthy m"
  shows "governingTag P (evs @ [(t, Live (AudioMsg a m))]) st = m"
  using assms bufferView_snoc [of P evs t "Live (AudioMsg a m)" st]
  by (simp add: governingTag_run [symmetric] bufferView_def)

lemma governingTag_kept:
  assumes "forwarded (run P evs st)" "decoded a \<noteq> []" "\<not> truthy m"
  shows "governingTag P (evs @ [(t, Live (AudioMsg a m))]) st
           = (if truthy (governingTag P evs st) then governingTag P evs st
              else Some ''audio/pcm;rate=24000'')"
  using assms bufferView_snoc [of P evs t "Live (AudioMsg a m)" st]
  by (simp add: governingTag_run [symmetric] bufferView_def)




subsection \<open>The arbitrator\<close>

lemma claimedTurn_eq:
  "claimedTurn = navTurn\<lparr>navAwaitingResponse := False, awaitingRealtimeResponse := False,
       navSuppressRealtime := True, currentPage := ''chat'',
       chatMessages := [Message ''open chat'' User None False,
                        Message ''Opening chat'' Bot (Some ''navigation'') False],
       spoken := [(''Opening chat'', EnUS)],
       connectionStatus := (Connected, ''Speaking...'')\<rparr>"
  by (simp add: claimedTurn_def navTurn_eq initial_def handler_defs navigateTo_def
        openChatView_def isArabicText_def)

lemma plain_text_is_no_payload:
  "\<not> isNavigationPayload P ''Sure, opening the chat''"
  by (simp add: isNavigationPayload_def trim_def whiteSpace_def)

text \<open>
  Claim C1 fails on the code. The lookup answers \<open>handled = true\<close>: its message is shown
  and spoken, \<open>navSuppressRealtime\<close> is set, and \<open>navAwaitingResponse\<close> is cleared in
  the same step. The text case of \<open>handleLiveMessage\<close> discards only while both flags are
  set, so a text envelope that arrives next for the same turn is shown as a bot message
  beside the assist message. (An audio envelope is discarded, because
  \<open>awaitingRealtimeResponse\<close> was cleared.)
\<close>

theorem C1_text_after_handled_is_rendered:
  "navSuppressRealtime claimedTurn \<and> \<not> navAwaitingResponse claimedTurn
   \<and> chatMessages claimedTurn
       = [Message ''open chat'' User None False,
          Message ''Opening chat'' Bot (Some ''navigation'') False]
   \<and> spoken claimedTurn = [(''Opening chat'', EnUS)]
   \<and> chatMessages (run noJSON [(60, Live (TextMsg ''Sure, opening the chat''))] claimedTurn)
       = chatMessages claimedTurn @ [Message ''Sure, opening the chat'' Bot None False]
   \<and> pendingAudioChunks (run noJSON [(70, Live (AudioMsg (Some ''AQID'') None))] claimedTurn)
       = []"
  by (simp add: claimedTurn_eq navTurn_eq initial_def step_def handleLiveMessage_def
        plain_text_is_no_payload addMessage_def scheduleNavSpeechFallback_def
        setNavResponding_def)

lemma text_arms_timer:
  assumes "navAwaitingResponse st" "\<not> navSuppressRealtime st" "c \<noteq> []"
    and "\<not> isNavigationPayload P c"
  shows "handleLiveMessage P t (TextMsg c) st
           = st\<lparr>chatMessages := chatMessages st @ [Message c Bot None False],
                lastResponseText := Some c,
                navResponseTimeout := Some (Pending (t + 2500)),
                navResponding := True\<rparr>"
  using assms
  by (simp add: handleLiveMessage_def addMessage_def scheduleNavSpeechFallback_def
        clearNavSpeechFallback_def setNavResponding_def truthy_def)

lemma fireNavTimeout_idle:
  "navResponseTimeout st = None \<or> navResponseTimeout st = Some Fired \<Longrightarrow>
   fireNavTimeout t st = st"
  by (auto simp: fireNavTimeout_def)

lemma fireNavTimeout_early:
  "navResponseTimeout st = Some (Pending due) \<Longrightarrow> t < due \<Longrightarrow> fireNavTimeout t st = st"
  by (simp add: fireNavTimeout_def)

lemma spoken_finalizeAudioResponse [simp]: "spoken (finalizeAudioResponse st) = spoken st"
  by (simp add: finalizeAudioResponse_def playNextAudio_def addMessage_def
        updateConnectionStatus_def Let_def split: list.splits)

lemma speakTextResponse_timer [simp]:
  "speakTextResponse b (st\<lparr>navResponseTimeout := x\<rparr>)
     = (speakTextResponse b st)\<lparr>navResponseTimeout := x\<rparr>"
  by (simp add: speakTextResponse_def addMessage_def updateConnectionStatus_def
        split: option.splits)

lemma spoken_turn_complete:
  "spoken (handleLiveMessage P t TurnComplete st)
     = (if \<not> navSuppressRealtime st \<and> pendingAudioChunks st = [] \<and> navAwaitingResponse st
           \<and> truthy (lastResponseText st)
        then spoken (speakTextResponse (lastResponseText st) st) else spoken st)"
  by (simp add: handleLiveMessage_def clearNavSpeechFallback_eq setNavResponding_def Let_def)

lemma armedView_frames [simp]:
  "armedView (setNavResponding r st) = armedView st"
  "armedView (addMessage body ty tool err st) = armedView st"
  "armedView (updateConnectionStatus status label st) = armedView st"
  "armedView (navigateTo page st) = armedView st"
  "armedView (handleNavAssist transcript st) = armedView st"
  "armedView (handleSendMessage t st) = armedView st"
  "armedView (removeLoadingMessage loadingId st) = armedView st"
  "armedView (playRejected st) = armedView st"
  "armedView (onaudioprocess inputData st) = armedView st"
  by (simp_all add: armedView_def setNavResponding_def addMessage_def
        updateConnectionStatus_def navigateTo_def handleNavAssist_def handleSendMessage_def
        removeLoadingMessage_def playRejected_def onaudioprocess_def Let_def)

lemma armedView_updates [simp]:
  "armedView (st\<lparr>lastResponseText := x1\<rparr>) = armedView st"
  "armedView (st\<lparr>assistInFlight := x2\<rparr>) = armedView st"
  "armedView (st\<lparr>messageInput := x3\<rparr>) = armedView st"
  "armedView (st\<lparr>wsOpen := x4\<rparr>) = armedView st"
  "armedView (st\<lparr>mediaRequests := x5\<rparr>) = armedView st"
  by (simp_all add: armedView_def)

lemma lastResponseText_frames [simp]:
  "lastResponseText (setNavResponding r st) = lastResponseText st"
  "lastResponseText (addMessage body ty tool err st) = lastResponseText st"
  "lastResponseText (updateConnectionStatus status label st) = lastResponseText st"
  "lastResponseText (navigateTo page st) = lastResponseText st"
  "lastResponseText (handleNavAssist transcript st) = lastResponseText st"
  "lastResponseText (handleSendMessage t st) = lastResponseText st"
  "lastResponseText (removeLoadingMessage loadingId st) = lastResponseText st"
  "lastResponseText (playRejected st) = lastResponseText st"
  "lastResponseText (onaudioprocess inputData st) = lastResponseText st"
  by (simp_all add: setNavResponding_def addMessage_def
        updateConnectionStatus_def navigateTo_def handleNavAssist_def handleSendMessage_def
        removeLoadingMessage_def playRejected_def onaudioprocess_def Let_def)

lemma armedView_audioFinished [simp]:
  "armedView (audioFinished u st) = armedView st"
  "lastResponseText (audioFinished u st) = lastResponseText st"
  by (simp_all add: audioFinished_def playNextAudio_def updateConnectionStatus_def
        armedView_def Let_def split: list.splits)

lemma armedView_executeAssistAction [simp]:
  "armedView (executeAssistAction t st a) = armedView st"
  "lastResponseText (executeAssistAction t st a) = lastResponseText st"
  by (cases a;
      simp add: executeAssistAction_def openChatView_def showNavGuide_def Let_def
        split: option.splits)+

lemma armedView_executeAssistActions [simp]:
  "armedView (executeAssistActions t acts st) = armedView st"
  "lastResponseText (executeAssistActions t acts st) = lastResponseText st"
  unfolding executeAssistActions_def
  by (induction acts arbitrary: st) simp_all

lemma armedView_query [simp]:
  "armedView (handleSendMessageReply t outcome st) = armedView st"
  "lastResponseText (handleSendMessageReply t outcome st) = lastResponseText st"
  by (cases outcome;
      simp add: handleSendMessageReply_def querySucceeded_def removeLoadingMessage_def
        addMessage_def armedView_def Let_def split: option.splits)+

lemma armedView_upload [simp]:
  "armedView (handleFileUpload f st) = armedView st"
  "lastResponseText (handleFileUpload f st) = lastResponseText st"
  "armedView (handleFileUploadReply outcome st) = armedView st"
  "lastResponseText (handleFileUploadReply outcome st) = lastResponseText st"
proof -
  show "armedView (handleFileUpload f st) = armedView st"
    "lastResponseText (handleFileUpload f st) = lastResponseText st"
    by (cases f; simp add: handleFileUpload_def armedView_def)+
  have "armedView (handleFileUploadReply outcome st) = armedView st
      \<and> lastResponseText (handleFileUploadReply outcome st) = lastResponseText st"
  proof (cases "uploadInFlight st")
    case Nil
    then show ?thesis by (simp add: handleFileUploadReply_def)
  next
    case (Cons name rest)
    show ?thesis
    proof (cases outcome)
      case (UploadFailed msg)
      with Cons show ?thesis
        by (simp add: handleFileUploadReply_def armedView_def)
    next
      case (UploadResponse ok detail)
      with Cons show ?thesis
        by (cases ok) (simp_all add: handleFileUploadReply_def armedView_def addMessage_def)
    qed
  qed
  then show "armedView (handleFileUploadReply outcome st) = armedView st"
    "lastResponseText (handleFileUploadReply outcome st) = lastResponseText st"
    by simp_all
qed

lemma armedView_denied [simp]:
  "armedView (startRecordingReply False st) = armedView st"
  "lastResponseText (startRecordingReply False st) = lastResponseText st"
  by (simp_all add: startRecordingReply_def addMessage_def armedView_def Let_def
        split: list.splits prod.splits)

lemma calm_live:
  assumes "\<not> navSuppressRealtime st" "calm P (Live message)"
  shows "armedView (handleLiveMessage P t message st) = armedView st
       \<and> lastResponseText (handleLiveMessage P t message st) = lastResponseText st"
  using assms
  by (cases message) (simp_all add: handleLiveMessage_def Let_def)

lemma calm_assist:
  assumes "calm P (AssistSettled outcome)"
  shows "armedView (handleNavAssistReply t outcome st) = armedView st
       \<and> (truthy (lastResponseText st) \<longrightarrow> truthy (lastResponseText (handleNavAssistReply t outcome st)))
       \<and> (\<not> carriesMessage (AssistSettled outcome) \<longrightarrow>
            lastResponseText (handleNavAssistReply t outcome st) = lastResponseText st)"
  using assms
  by (cases outcome) (simp_all add: handleNavAssistReply_def Let_def split: option.splits)

lemma calm_step:
  assumes "\<not> navSuppressRealtime st" "navResponseTimeout st = Some (Pending due)"
    and "calm P ev" "ev = NavTimerDue \<longrightarrow> t < due"
  shows "armedView (step P t ev st) = armedView st
       \<and> (truthy (lastResponseText st) \<longrightarrow> truthy (lastResponseText (step P t ev st)))
       \<and> (\<not> carriesMessage ev \<longrightarrow> lastResponseText (step P t ev st) = lastResponseText st)"
proof (cases ev)
  case (Live message)
  with calm_live [OF assms(1), of P message t] assms(3) show ?thesis by (simp add: step_def)
next
  case (AssistSettled outcome)
  with calm_assist [of P outcome t st] assms(3) show ?thesis by (simp add: step_def)
next
  case NavTimerDue
  with assms(4) have "t < due" by simp
  from fireNavTimeout_early [OF assms(2) this] NavTimerDue show ?thesis
    by (simp add: step_def)
next
  case (ToggleRecording m b)
  then show ?thesis using assms(3) by simp
next
  case (MediaSettled granted)
  then show ?thesis using assms(3) by (simp add: step_def)
qed (simp_all add: step_def)

lemma calm_run:
  assumes "\<not> navSuppressRealtime st" "navResponseTimeout st = Some (Pending due)"
    and "list_all (calmUntil P due) evs"
  shows "armedView (run P evs st) = armedView st
       \<and> (truthy (lastResponseText st) \<longrightarrow> truthy (lastResponseText (run P evs st)))
       \<and> (list_all (\<lambda>e. \<not> carriesMessage (snd e)) evs \<longrightarrow>
            lastResponseText (run P evs st) = lastResponseText st)"
  using assms
proof (induction evs arbitrary: st)
  case Nil
  then show ?case by simp
next
  case (Cons e evs)
  obtain t ev where e: "e = (t, ev)" by (cases e)
  from Cons.prems(3) e have "calmUntil P due (t, ev)"
    and rest: "list_all (calmUntil P due) evs"
    by simp_all
  then have c: "calm P ev" "ev = NavTimerDue \<longrightarrow> t < due"
    by (simp_all add: calmUntil_def)
  note s = calm_step [OF Cons.prems(1,2) c]
  from s Cons.prems(1,2) have p: "\<not> navSuppressRealtime (step P t ev st)"
    "navResponseTimeout (step P t ev st) = Some (Pending due)"
    by (simp_all add: armedView_def)
  from Cons.IH [OF p rest] s show ?case
    by (simp add: e)
qed

text \<open>
  Claim C3, as amended. A text envelope whose content is not empty and is not a
  navigation payload is processed while \<open>navAwaitingResponse\<close> is set, suppression is not
  and no audio fragment is buffered; the window has speech synthesis. The envelope arms
  the timer for 2500 ms later. Then any tasks run that leave the fallback armed
  (\<open>calmUntil\<close>): nothing is spoken meanwhile. When the timer task runs, at or after
  the time it is due, the candidate remembered then is handed to the synthesiser, once
  (the utterance list grows by this one entry): it is the text of the envelope, unless an
  assist outcome without \<open>handled\<close> has replaced it by its message. The candidate is
  forgotten and \<open>navAwaitingResponse\<close> is cleared; after that neither another timer task
  nor the completion of the turn speaks again. When the turn completes before the timer
  task runs, the completion speaks the candidate, once, and clears the flag, and the timer
  task does nothing any more.
\<close>

theorem C3_fallback_speaks_once:
  assumes "navAwaitingResponse st" "\<not> navSuppressRealtime st" "pendingAudioChunks st = []"
    and "c \<noteq> []" "\<not> isNavigationPayload P c" "speechSynthesis st"
    and "list_all (calmUntil P (t + 2500)) evs"
    and "t + 2500 \<le> t'"
  shows "spoken (run P ((t, Live (TextMsg c)) # evs) st) = spoken st
       \<and> navResponseTimeout (run P ((t, Live (TextMsg c)) # evs) st) = Some (Pending (t + 2500))
       \<and> (\<exists>c'. lastResponseText (run P ((t, Live (TextMsg c)) # evs) st) = Some c'
             \<and> c' \<noteq> []
             \<and> (list_all (\<lambda>e. \<not> carriesMessage (snd e)) evs \<longrightarrow> c' = c)
             \<and> spoken (run P ((t, Live (TextMsg c)) # evs @ [(t', NavTimerDue)]) st)
                 = spoken st @ [(c', if isArabicText c' then ArSA else EnUS)]
             \<and> spoken (run P ((t, Live (TextMsg c)) # evs
                                @ [(t', NavTimerDue), (t'', NavTimerDue)]) st)
                 = spoken st @ [(c', if isArabicText c' then ArSA else EnUS)]
             \<and> spoken (run P ((t, Live (TextMsg c)) # evs
                                @ [(t', NavTimerDue), (t'', Live TurnComplete)]) st)
                 = spoken st @ [(c', if isArabicText c' then ArSA else EnUS)]
             \<and> spoken (run P ((t, Live (TextMsg c)) # evs @ [(t'', Live TurnComplete)]) st)
                 = spoken st @ [(c', if isArabicText c' then ArSA else EnUS)]
             \<and> spoken (run P ((t, Live (TextMsg c)) # evs
                                @ [(t'', Live TurnComplete), (t', NavTimerDue)]) st)
                 = spoken st @ [(c', if isArabicText c' then ArSA else EnUS)])
       \<and> \<not> navAwaitingResponse (run P ((t, Live (TextMsg c)) # evs @ [(t', NavTimerDue)]) st)
       \<and> lastResponseText (run P ((t, Live (TextMsg c)) # evs @ [(t', NavTimerDue)]) st) = None
       \<and> \<not> navAwaitingResponse
             (run P ((t, Live (TextMsg c)) # evs @ [(t'', Live TurnComplete)]) st)"
proof -
  define s0 where "s0 = handleLiveMessage P t (TextMsg c) st"
  define s1 where "s1 = run P evs s0"
  define s2 where "s2 = fireNavTimeout t' s1"
  define s3 where "s3 = handleLiveMessage P t'' TurnComplete s1"
  have s0: "navResponseTimeout s0 = Some (Pending (t + 2500))" "navAwaitingResponse s0"
    "pendingAudioChunks s0 = []" "lastResponseText s0 = Some c" "speechSynthesis s0"
    "spoken s0 = spoken st" "\<not> navSuppressRealtime s0"
    using assms(1,2,3,6) unfolding s0_def text_arms_timer [OF assms(1,2,4,5)] by simp_all
  have t0: "truthy (lastResponseText s0)" using s0(4) assms(4) by (simp add: truthy_def)
  note r = calm_run [OF s0(7) s0(1) assms(7)]
  from r s0 have s1: "navResponseTimeout s1 = Some (Pending (t + 2500))"
    "navAwaitingResponse s1" "pendingAudioChunks s1 = []" "speechSynthesis s1"
    "spoken s1 = spoken st" "\<not> navSuppressRealtime s1"
    by (simp_all add: s1_def armedView_def)
  from r t0 have t1: "truthy (lastResponseText s1)" by (simp add: s1_def)
  then obtain c' where c': "lastResponseText s1 = Some c'" "c' \<noteq> []"
    by (auto simp: truthy_def split: option.splits)
  have same: "c' = c" if "list_all (\<lambda>e. \<not> carriesMessage (snd e)) evs"
    using r that s0(4) c'(1) by (simp add: s1_def)
  let ?u = "(c', if isArabicText c' then ArSA else EnUS)"
  have sp: "spoken (speakTextResponse (Some c') s1) = spoken st @ [?u]"
    using s1(4,5) c'(2) by (simp add: speakTextResponse_def updateConnectionStatus_def)
  have s2: "spoken s2 = spoken st @ [?u]" "\<not> navAwaitingResponse s2"
    "lastResponseText s2 = None" "navResponseTimeout s2 = Some Fired"
    using s1 c' assms(8)
    by (simp_all add: s2_def fireNavTimeout_def navTimeoutCallback_def speakTextResponse_def
          updateConnectionStatus_def truthy_def)
  have again: "fireNavTimeout t'' s2 = s2"
    using s2(4) by (simp add: fireNavTimeout_idle)
  have fin: "spoken (handleLiveMessage P t'' TurnComplete s2) = spoken st @ [?u]"
    using s2 by (simp add: spoken_turn_complete)
  have s3: "spoken s3 = spoken st @ [?u]"
    unfolding s3_def using s1(2,3,6) t1 sp c'(1) by (simp add: spoken_turn_complete)
  have s3': "navResponseTimeout s3 = None" "\<not> navAwaitingResponse s3"
    using s1(3,4,6) c'
    by (simp_all add: s3_def handleLiveMessage_def clearNavSpeechFallback_eq
          setNavResponding_def speakTextResponse_def updateConnectionStatus_def Let_def)
  have late: "fireNavTimeout t' s3 = s3"
    using s3'(1) by (simp add: fireNavTimeout_idle)
  have runs:
    "run P ((t, Live (TextMsg c)) # evs) st = s1"
    "run P ((t, Live (TextMsg c)) # evs @ [(t', NavTimerDue)]) st = s2"
    "run P ((t, Live (TextMsg c)) # evs @ [(t', NavTimerDue), (t'', NavTimerDue)]) st
       = fireNavTimeout t'' s2"
    "run P ((t, Live (TextMsg c)) # evs @ [(t', NavTimerDue), (t'', Live TurnComplete)]) st
       = handleLiveMessage P t'' TurnComplete s2"
    "run P ((t, Live (TextMsg c)) # evs @ [(t'', Live TurnComplete)]) st = s3"
    "run P ((t, Live (TextMsg c)) # evs @ [(t'', Live TurnComplete), (t', NavTimerDue)]) st
       = fireNavTimeout t' s3"
    by (simp_all add: run_append step_def s0_def s1_def s2_def s3_def)
  have ex: "\<exists>c'. lastResponseText s1 = Some c' \<and> c' \<noteq> []
             \<and> (list_all (\<lambda>e. \<not> carriesMessage (snd e)) evs \<longrightarrow> c' = c)
             \<and> spoken s2 = spoken st @ [(c', if isArabicText c' then ArSA else EnUS)]
             \<and> spoken (fireNavTimeout t'' s2)
                 = spoken st @ [(c', if isArabicText c' then ArSA else EnUS)]
             \<and> spoken (handleLiveMessage P t'' TurnComplete s2)
                 = spoken st @ [(c', if isArabicText c' then ArSA else EnUS)]
             \<and> spoken s3 = spoken st @ [(c', if isArabicText c' then ArSA else EnUS)]
             \<and> spoken (fireNavTimeout t' s3)
                 = spoken st @ [(c', if isArabicText c' then ArSA else EnUS)]"
    using c' same s2(1) again fin s3 late by (intro exI [of _ c']) simp
  show ?thesis
    unfolding runs using s1(1,5) s2(2,3) s3'(2) ex by blast
qed

lemma hello_calm:
  "list_all (calmUntil noJSON (40 + 2500))
     [(100, Live (TranscriptionMsg ''open chat'')),
      (200, AssistSettled (AssistOk None (Some [ActOpenChat]) False)),
      (300, NavTimerDue), (400, Live (ErrorMsg ''busy'')), (3000, SocketClosed)]"
  "list_all (\<lambda>e. \<not> carriesMessage (snd e))
     [(100 :: nat, Live (TranscriptionMsg ''open chat'')),
      (200, AssistSettled (AssistOk None (Some [ActOpenChat]) False)),
      (300, NavTimerDue), (400, Live (ErrorMsg ''busy'')), (3000, SocketClosed)]"
  by (simp_all add: truthy_def calmUntil_def)

theorem C3_fallback_speaks_once_witness:
  "navAwaitingResponse navTurn \<and> \<not> navSuppressRealtime navTurn
   \<and> pendingAudioChunks navTurn = [] \<and> ''Hello'' \<noteq> []
   \<and> \<not> isNavigationPayload noJSON ''Hello'' \<and> speechSynthesis navTurn
   \<and> list_all (calmUntil noJSON (40 + 2500))
        [(100, Live (TranscriptionMsg ''open chat'')),
         (200, AssistSettled (AssistOk None (Some [ActOpenChat]) False)),
         (300, NavTimerDue), (400, Live (ErrorMsg ''busy'')), (3000, SocketClosed)]
   \<and> (40 :: nat) + 2500 \<le> 3100
   \<and> spoken (run noJSON ((40, Live (TextMsg ''Hello''))
        # [(100, Live (TranscriptionMsg ''open chat'')),
           (200, AssistSettled (AssistOk None (Some [ActOpenChat]) False)),
           (300, NavTimerDue), (400, Live (ErrorMsg ''busy'')), (3000, SocketClosed)]
        @ [(3100, NavTimerDue)]) navTurn)
       = [(''Hello'', EnUS)]
   \<and> \<not> navAwaitingResponse (run noJSON ((40, Live (TextMsg ''Hello''))
        # [(100, Live (TranscriptionMsg ''open chat'')),
           (200, AssistSettled (AssistOk None (Some [ActOpenChat]) False)),
           (300, NavTimerDue), (400, Live (ErrorMsg ''busy'')), (3000, SocketClosed)]
        @ [(3100, NavTimerDue)]) navTurn)"
proof -
  have a: "\<not> isArabicText ''Hello''" by (simp add: isArabicText_def)
  have t: "(40 :: nat) + 2500 \<le> 3100" by simp
  have n: "''Hello'' \<noteq> []" by simp
  from C3_fallback_speaks_once [OF navTurn_fields(3) navTurn_fields(2) navTurn_fields(4) n
      hello_plain navTurn_fields(10) hello_calm(1) t, of 3000]
  show ?thesis
    using navTurn_fields hello_plain hello_calm a by auto
qed

text \<open>
  Claim C3 as stated fails in several ways, each with no audio fragment buffered and no
  handled outcome within the 2500 ms. A text envelope that is a navigation payload is not
  remembered and arms no timer: nothing is spoken and \<open>navAwaitingResponse\<close> stays set.
  An audio envelope without a payload buffers nothing but cancels the timer, and so does
  a click that starts the next recording. And on a browser without speech synthesis the
  timer task adds a chat message instead of speaking.
\<close>

theorem C3_navigation_payload_counterexample:
  "navAwaitingResponse navTurn \<and> \<not> navSuppressRealtime navTurn
   \<and> pendingAudioChunks navTurn = []
   \<and> isNavigationPayload pageJSON ''{\"page\":\"players\"}''
   \<and> navResponseTimeout (run pageJSON [(40, Live (TextMsg ''{\"page\":\"players\"}''))] navTurn)
       = None
   \<and> spoken (run pageJSON [(40, Live (TextMsg ''{\"page\":\"players\"}'')), (2540, NavTimerDue)]
               navTurn) = []
   \<and> navAwaitingResponse
       (run pageJSON [(40, Live (TextMsg ''{\"page\":\"players\"}'')), (2540, NavTimerDue)] navTurn)
   \<and> pendingAudioChunks (run noJSON [(40, Live (TextMsg ''Hello'')),
        (1000, Live (AudioMsg (Some []) None))] navTurn) = []
   \<and> spoken (run noJSON [(40, Live (TextMsg ''Hello'')),
        (1000, Live (AudioMsg (Some []) None)), (2540, NavTimerDue)] navTurn) = []
   \<and> navAwaitingResponse (run noJSON [(40, Live (TextMsg ''Hello'')),
        (1000, Live (AudioMsg (Some []) None)), (2540, NavTimerDue)] navTurn)
   \<and> spoken (run noJSON [(40, Live (TextMsg ''Hello'')),
        (1000, ToggleRecording Nav NavMicButton), (2540, NavTimerDue)] navTurn) = []
   \<and> navAwaitingResponse (run noJSON [(40, Live (TextMsg ''Hello'')),
        (1000, ToggleRecording Nav NavMicButton), (2540, NavTimerDue)] navTurn)
   \<and> navAwaitingResponse muteTurn \<and> \<not> speechSynthesis muteTurn
   \<and> spoken (run noJSON [(40, Live (TextMsg ''Hello'')), (2540, NavTimerDue)] muteTurn) = []"
proof -
  have p: "isNavigationPayload pageJSON ''{\"page\":\"players\"}''"
    by (simp add: isNavigationPayload_def trim_def whiteSpace_def pageJSON_def typeofString_def
          suffix_def)
  have a: "navResponseTimeout (run pageJSON [(40, Live (TextMsg ''{\"page\":\"players\"}''))] navTurn)
       = None
   \<and> spoken (run pageJSON [(40, Live (TextMsg ''{\"page\":\"players\"}'')), (2540, NavTimerDue)]
               navTurn) = []
   \<and> navAwaitingResponse
       (run pageJSON [(40, Live (TextMsg ''{\"page\":\"players\"}'')), (2540, NavTimerDue)] navTurn)"
    using p
    by (simp add: navTurn_eq initial_def step_def handleLiveMessage_def setNavResponding_def
          fireNavTimeout_def)
  have b: "pendingAudioChunks (run noJSON [(40, Live (TextMsg ''Hello'')),
        (1000, Live (AudioMsg (Some []) None))] navTurn) = []
   \<and> spoken (run noJSON [(40, Live (TextMsg ''Hello'')),
        (1000, Live (AudioMsg (Some []) None)), (2540, NavTimerDue)] navTurn) = []
   \<and> navAwaitingResponse (run noJSON [(40, Live (TextMsg ''Hello'')),
        (1000, Live (AudioMsg (Some []) None)), (2540, NavTimerDue)] navTurn)"
    by (simp add: trace_defs)
  have c: "spoken (run noJSON [(40, Live (TextMsg ''Hello'')),
        (1000, ToggleRecording Nav NavMicButton), (2540, NavTimerDue)] navTurn) = []
   \<and> navAwaitingResponse (run noJSON [(40, Live (TextMsg ''Hello'')),
        (1000, ToggleRecording Nav NavMicButton), (2540, NavTimerDue)] navTurn)"
    by (simp add: trace_defs)
  have d: "navAwaitingResponse muteTurn \<and> \<not> speechSynthesis muteTurn
   \<and> spoken (run noJSON [(40, Live (TextMsg ''Hello'')), (2540, NavTimerDue)] muteTurn) = []"
    by (simp add: muteTurn_def trace_defs)
  show ?thesis
    using navTurn_fields(2,3,4) p a b c d by blast
qed

lemma handleSendMessage_frame [simp]:
  "pendingAudioChunks (handleSendMessage t st) = pendingAudioChunks st"
  "navSuppressRealtime (handleSendMessage t st) = navSuppressRealtime st"
  "spoken (handleSendMessage t st) = spoken st"
  by (simp_all add: handleSendMessage_def addMessage_def Let_def)

lemma executeAssistAction_frame [simp]:
  "pendingAudioChunks (executeAssistAction t st a) = pendingAudioChunks st"
  "navSuppressRealtime (executeAssistAction t st a) = navSuppressRealtime st"
  "spoken (executeAssistAction t st a) = spoken st"
  by (cases a; simp add: executeAssistAction_def navigateTo_def openChatView_def
        showNavGuide_def addMessage_def Let_def split: option.splits)+

lemma executeAssistActions_frame [simp]:
  "pendingAudioChunks (executeAssistActions t acts st) = pendingAudioChunks st"
  "navSuppressRealtime (executeAssistActions t acts st) = navSuppressRealtime st"
  "spoken (executeAssistActions t acts st) = spoken st"
  unfolding executeAssistActions_def
  by (induction acts arbitrary: st) simp_all

lemma quiet_live:
  assumes "pendingAudioChunks st \<noteq> []" "\<not> navSuppressRealtime st" "message \<noteq> TurnComplete"
  shows "pendingAudioChunks (handleLiveMessage P t message st) \<noteq> []
       \<and> \<not> navSuppressRealtime (handleLiveMessage P t message st)
       \<and> spoken (handleLiveMessage P t message st) = spoken st"
  using assms
  by (cases message)
    (simp_all add: handleLiveMessage_def addMessage_def scheduleNavSpeechFallback_def
       clearNavSpeechFallback_eq setNavResponding_def handleNavAssist_def navigateTo_def
       bufferAudioChunk_pending bufferAudioChunk_frame bufferAudioChunk_def Let_def
       split: option.splits)

lemma quiet_assist:
  assumes "pendingAudioChunks st \<noteq> []" "\<not> navSuppressRealtime st"
    and "quiet (AssistSettled outcome)"
  shows "pendingAudioChunks (handleNavAssistReply t outcome st) \<noteq> []
       \<and> \<not> navSuppressRealtime (handleNavAssistReply t outcome st)
       \<and> spoken (handleNavAssistReply t outcome st) = spoken st"
  using assms
  by (cases outcome)
    (simp_all add: handleNavAssistReply_def addMessage_def Let_def split: option.splits)

lemma quiet_step:
  assumes "pendingAudioChunks st \<noteq> []" "\<not> navSuppressRealtime st" "quiet ev"
  shows "pendingAudioChunks (step P t ev st) \<noteq> []
       \<and> \<not> navSuppressRealtime (step P t ev st)
       \<and> spoken (step P t ev st) = spoken st"
proof (cases ev)
  case (Live message)
  then have "message \<noteq> TurnComplete" using assms(3) by auto
  from quiet_live [OF assms(1,2) this] Live show ?thesis by (simp add: step_def)
next
  case (AssistSettled outcome)
  with quiet_assist [OF assms(1,2)] assms(3) show ?thesis by (simp add: step_def)
next
  case NavTimerDue
  then show ?thesis
    using assms(1,2)
    by (simp add: step_def fireNavTimeout_def navTimeoutCallback_def
          split: option.splits timer.splits)
next
  case (ToggleRecording m b)
  then show ?thesis using assms(3) by simp
qed (use assms(1,2) in \<open>simp_all add: step_def audioFinished_def playNextAudio_def
      playRejected_def addMessage_def updateConnectionStatus_def startRecordingReply_def
      setNavResponding_def onaudioprocess_def handleSendMessageReply_def querySucceeded_def
      removeLoadingMessage_def handleFileUpload_def handleFileUploadReply_def Let_def
      split: list.splits option.splits query_outcome.splits upload_outcome.splits
        bool.splits prod.splits\<close>)

lemma quiet_run:
  assumes "pendingAudioChunks st \<noteq> []" "\<not> navSuppressRealtime st"
    and "list_all (\<lambda>e. quiet (snd e)) evs"
  shows "pendingAudioChunks (run P evs st) \<noteq> []
       \<and> \<not> navSuppressRealtime (run P evs st)
       \<and> spoken (run P evs st) = spoken st"
  using assms
proof (induction evs arbitrary: st)
  case Nil
  then show ?case by simp
next
  case (Cons e evs)
  obtain t ev where e: "e = (t, ev)" by (cases e)
  from Cons.prems(3) e have q: "quiet ev" and rest: "list_all (\<lambda>e. quiet (snd e)) evs"
    by simp_all
  note s = quiet_step [OF Cons.prems(1,2) q, of P t]
  from Cons.IH [of "step P t ev st"] s rest show ?case
    by (simp add: e)
qed

lemma audio_accepted:
  assumes "awaitingRealtimeResponse st" "\<not> navSuppressRealtime st"
  shows "handleLiveMessage P t (AudioMsg a m) st
           = setNavResponding True (bufferAudioChunk a m (clearNavSpeechFallback st))"
  using assms by (simp add: handleLiveMessage_def)

lemma bufferAudioChunk_arbitrator:
  "spoken (bufferAudioChunk a m st) = spoken st"
  "navResponseTimeout (bufferAudioChunk a m st) = navResponseTimeout st"
  by (simp_all add: bufferAudioChunk_def split: option.splits)

lemma armedTurn_eq:
  "armedTurn = navTurn\<lparr>assistInFlight := 1,
       chatMessages := [Message ''open chat'' User None False, Message ''Hello'' Bot None False],
       lastResponseText := Some ''Hello'', navResponseTimeout := Some (Pending 2550),
       navResponding := True\<rparr>"
  by (simp add: armedTurn_def navTurn_eq initial_def handler_defs isNavigationPayload_def
        trim_def whiteSpace_def)

lemma armedTurn_fields:
  "awaitingRealtimeResponse armedTurn" "\<not> navSuppressRealtime armedTurn"
  "navResponseTimeout armedTurn = Some (Pending 2550)" "spoken armedTurn = []"
  by (simp_all add: armedTurn_eq navTurn_eq initial_def)

lemma decoded_AQID: "decoded (Some ''AQID'') = [1, 2, 3]"
  by (simp add: decoded_def truthy_def atob_AQID)

text \<open>
  Claim C4, as amended. An audio envelope that is accepted (a realtime response is
  awaited, suppression is not set) cancels the fallback timer: the handle is cleared, and
  a timer task that runs afterwards does nothing. If the envelope's payload decodes to a
  non-empty fragment, then through any later events that are not the completion of the
  turn, a handled assist outcome or a click on a microphone button, and through the
  completion of the turn itself, nothing is handed to the speech synthesiser.
\<close>

theorem C4_audio_preempts_fallback:
  assumes "awaitingRealtimeResponse st" "\<not> navSuppressRealtime st"
  shows "navResponseTimeout (step P t (Live (AudioMsg a m)) st) = None
       \<and> (\<forall>u. fireNavTimeout u (step P t (Live (AudioMsg a m)) st)
                 = step P t (Live (AudioMsg a m)) st)
       \<and> (decoded a \<noteq> [] \<longrightarrow>
            (\<forall>evs t'. list_all (\<lambda>e. quiet (snd e)) evs \<longrightarrow>
               spoken (run P ((t, Live (AudioMsg a m)) # evs @ [(t', Live TurnComplete)]) st)
                 = spoken st))"
proof -
  define s1 where "s1 = step P t (Live (AudioMsg a m)) st"
  have s1: "s1 = setNavResponding True (bufferAudioChunk a m (clearNavSpeechFallback st))"
    by (simp add: s1_def step_def audio_accepted [OF assms])
  have cancelled: "navResponseTimeout s1 = None"
    by (simp add: s1 setNavResponding_def bufferAudioChunk_arbitrator clearNavSpeechFallback_eq)
  have never: "fireNavTimeout u s1 = s1" for u
    using cancelled by (simp add: fireNavTimeout_idle)
  have f: "\<not> navSuppressRealtime s1" "spoken s1 = spoken st"
    "pendingAudioChunks s1 = pendingAudioChunks st @ (if decoded a = [] then [] else [decoded a])"
    using assms
    by (simp_all add: s1 setNavResponding_def bufferAudioChunk_frame bufferAudioChunk_pending
          bufferAudioChunk_arbitrator clearNavSpeechFallback_eq)
  have silent: "spoken (run P ((t, Live (AudioMsg a m)) # evs @ [(t', Live TurnComplete)]) st)
                  = spoken st"
    if d: "decoded a \<noteq> []" and q: "list_all (\<lambda>e. quiet (snd e)) evs" for evs t'
  proof -
    have ne: "pendingAudioChunks s1 \<noteq> []" using f(3) d by simp
    note r = quiet_run [OF ne f(1) q, of P]
    have "run P ((t, Live (AudioMsg a m)) # evs @ [(t', Live TurnComplete)]) st
            = handleLiveMessage P t' TurnComplete (run P evs s1)"
      by (simp add: run_append s1_def step_def)
    then show ?thesis
      using r f(2) by (simp add: spoken_turn_complete)
  qed
  show ?thesis
    using cancelled never silent unfolding s1_def by blast
qed

theorem C4_audio_preempts_fallback_witness:
  "awaitingRealtimeResponse armedTurn \<and> \<not> navSuppressRealtime armedTurn
   \<and> navResponseTimeout armedTurn = Some (Pending 2550)
   \<and> decoded (Some ''AQID'') \<noteq> []
   \<and> list_all (\<lambda>e. quiet (snd e)) [(2550, NavTimerDue), (2600, Live (TextMsg ''more''))]
   \<and> navResponseTimeout (step noJSON 1050 (Live (AudioMsg (Some ''AQID'') None)) armedTurn) = None
   \<and> spoken (run noJSON [(1050, Live (AudioMsg (Some ''AQID'') None)), (2550, NavTimerDue),
                (2600, Live (TextMsg ''more'')), (6000, NavTimerDue), (7000, Live TurnComplete)]
               armedTurn) = []"
proof -
  have q: "list_all (\<lambda>e. quiet (snd e))
             [(2550, NavTimerDue), (2600, Live (TextMsg ''more'')), (6000 :: nat, NavTimerDue)]"
    by simp
  from C4_audio_preempts_fallback [OF armedTurn_fields(1) armedTurn_fields(2),
      of noJSON 1050 "Some ''AQID''" None]
  have c: "navResponseTimeout (step noJSON 1050 (Live (AudioMsg (Some ''AQID'') None)) armedTurn)
             = None"
    and s: "\<And>evs t'. list_all (\<lambda>e. quiet (snd e)) evs \<Longrightarrow>
              spoken (run noJSON ((1050, Live (AudioMsg (Some ''AQID'') None)) # evs
                        @ [(t', Live TurnComplete)]) armedTurn) = spoken armedTurn"
    by (simp_all add: decoded_AQID)
  from s [OF q, of 7000] c show ?thesis
    using armedTurn_fields by (simp add: decoded_AQID)
qed

text \<open>
  Claim C4 as stated fails in three ways, each after an accepted audio envelope has
  cancelled the armed timer: a handled assist outcome speaks its message at once; when
  the envelope carried no bytes, the completion of the turn speaks the remembered text;
  and a click that starts a new recording drops the buffered fragment, after which the
  completion of the turn speaks the remembered text.
\<close>

theorem C4_speech_after_audio_counterexample:
  "navResponseTimeout armedTurn = Some (Pending 2550)
   \<and> awaitingRealtimeResponse armedTurn \<and> \<not> navSuppressRealtime armedTurn
   \<and> navResponseTimeout (run noJSON [(1050, Live (AudioMsg (Some ''AQID'') None))] armedTurn)
       = None
   \<and> pendingAudioChunks (run noJSON [(1050, Live (AudioMsg (Some ''AQID'') None))] armedTurn)
       = [[1, 2, 3]]
   \<and> spoken (run noJSON [(1050, Live (AudioMsg (Some ''AQID'') None)),
        (1100, AssistSettled (AssistOk (Some ''Opening chat'') None True))] armedTurn)
       = [(''Opening chat'', EnUS)]
   \<and> spoken (run noJSON [(1050, Live (AudioMsg (Some []) None)), (1100, Live TurnComplete)]
               armedTurn) = [(''Hello'', EnUS)]
   \<and> spoken (run noJSON [(1050, Live (AudioMsg (Some ''AQID'') None)),
        (1100, ToggleRecording Nav NavMicButton), (1200, Live TurnComplete)] armedTurn)
       = [(''Hello'', EnUS)]"
  by (simp add: armedTurn_eq navTurn_eq initial_def handler_defs atob_AQID isArabicText_def)

subsection \<open>Stopping the capture\<close>

lemma ready_eq:
  "ready = initial\<lparr>wsOpen := True, connectionStatus := (Connected, ''Ready'')\<rparr>"
  by (simp add: ready_def step_def updateConnectionStatus_def)

lemma stopRecording_eq:
  "stopRecording st =
     st\<lparr>isRecording := False,
        processorConnected := (\<not> mediaRecorder st \<and> processorConnected st),
        tracksLive := (\<not> mediaRecorder st \<and> tracksLive st),
        audioContext := False,
        sent := sent st @ (if wsOpen st then [AudioStreamEnd] else []),
        recordingButtons :=
          (case activeRecordingTarget st of Some b \<Rightarrow> recordingButtons st - {b}
           | None \<Rightarrow> recordingButtons st),
        navAwaitingResponse := (activeRecordingMode st = Some Nav \<or> navAwaitingResponse st),
        awaitingRealtimeResponse := True, activeRecordingMode := None,
        activeRecordingTarget := None,
        connectionStatus := (Connected, ''Processing...'')\<rparr>"
  by (cases "mediaRecorder st"; cases "audioContext st"; cases "wsOpen st";
      cases "activeRecordingTarget st"; cases "activeRecordingMode st = Some Nav";
      simp add: stopRecording_def updateConnectionStatus_def)

lemma lcStopRecording_eq:
  "lcStopRecording st =
     st\<lparr>isRecording := False,
        processorConnected := (\<not> mediaRecorder st \<and> processorConnected st),
        tracksLive := (\<not> mediaRecorder st \<and> tracksLive st),
        audioContext := False,
        sent := sent st @ (if wsOpen st then [AudioStreamEnd] else []),
        recordingButtons := recordingButtons st - {MicButton},
        statusMessage := ''Processing...''\<rparr>"
  by (cases "mediaRecorder st"; cases "audioContext st"; cases "wsOpen st";
      simp add: lcStopRecording_def)

text \<open>
  Claim C5, as amended. A second call of \<open>stopRecording\<close> right after the first leaves
  every variable and every part of the page as the first call left them, but sends one
  more \<open>audio_stream_end\<close> frame when the socket is open; the same holds on the live-chat
  page. The buttons do not call it twice: a click after a stop starts a recording and
  sends nothing.
\<close>

theorem C5_stop_twice:
  "stopRecording (stopRecording st)
     = (stopRecording st)\<lparr>sent := sent (stopRecording st)
                                    @ (if wsOpen st then [AudioStreamEnd] else [])\<rparr>
   \<and> lcStopRecording (lcStopRecording st)
     = (lcStopRecording st)\<lparr>sent := sent (lcStopRecording st)
                                    @ (if wsOpen st then [AudioStreamEnd] else [])\<rparr>
   \<and> sent (toggleRecording m b (stopRecording st)) = sent (stopRecording st)"
proof -
  have a: "stopRecording (stopRecording st)
     = (stopRecording st)\<lparr>sent := sent (stopRecording st)
                                    @ (if wsOpen st then [AudioStreamEnd] else [])\<rparr>"
    by (simp add: stopRecording_eq)
  have b: "lcStopRecording (lcStopRecording st)
     = (lcStopRecording st)\<lparr>sent := sent (lcStopRecording st)
                                    @ (if wsOpen st then [AudioStreamEnd] else [])\<rparr>"
    by (simp add: lcStopRecording_eq)
  have c: "sent (toggleRecording m b (stopRecording st)) = sent (stopRecording st)"
    by (simp add: stopRecording_eq toggleRecording_def startRecording_def
          resetAudioPlaybackState_def resetNavAssistState_def clearNavSpeechFallback_eq
          Let_def split: option.splits)
  from a b c show ?thesis by blast
qed

text \<open>
  Claim C5 as stated fails: with the socket open and nothing recording, a call of
  \<open>stopRecording\<close> sends \<open>audio_stream_end\<close>, marks a realtime response as awaited
  and sets the status line, and a second call sends a second \<open>audio_stream_end\<close>.
\<close>

theorem C5_stop_not_idempotent_counterexample:
  "\<not> isRecording ready \<and> sent ready = []
   \<and> sent (stopRecording ready) = [AudioStreamEnd]
   \<and> \<not> awaitingRealtimeResponse ready \<and> awaitingRealtimeResponse (stopRecording ready)
   \<and> connectionStatus ready = (Connected, ''Ready'')
   \<and> connectionStatus (stopRecording ready) = (Connected, ''Processing...'')
   \<and> sent (stopRecording (stopRecording ready)) = [AudioStreamEnd, AudioStreamEnd]
   \<and> sent (lcStopRecording ready) = [AudioStreamEnd]
   \<and> sent (lcStopRecording (lcStopRecording ready)) = [AudioStreamEnd, AudioStreamEnd]"
  by (simp add: ready_eq initial_def stopRecording_def lcStopRecording_def
        updateConnectionStatus_def)

subsection \<open>The playback queue\<close>

lemma queueOk_enqueue_busy:
  "queueOk q True aa pl stt rv pa n \<Longrightarrow> queueOk (q @ [n]) True aa pl stt rv pa (Suc n)"
  by (auto simp: queueOk_def sorted_wrt_append less_Suc_eq)

lemma queueOk_enqueue_idle:
  "queueOk q False aa pl stt rv pa n \<Longrightarrow> queueOk [] True (Some n) [n] (stt @ [n]) rv pa (Suc n)"
  by (auto simp: queueOk_def sorted_wrt_append less_Suc_eq)

lemma queueOk_finished_last:
  "queueOk [] ip aa pl stt rv pa n \<Longrightarrow> u \<in> set pl \<Longrightarrow>
   queueOk [] False None [] stt (rv @ [u]) pa n"
  by (auto simp: queueOk_def split: option.splits)

lemma queueOk_finished_next:
  "queueOk (v # rest) ip aa pl stt rv pa n \<Longrightarrow> u \<in> set pl \<Longrightarrow>
   queueOk rest True (Some v) [v] (stt @ [v]) (rv @ [u]) pa n"
  by (auto simp: queueOk_def sorted_wrt_append split: option.splits)

lemma queueOk_reset:
  "queueOk q ip aa pl stt rv pa n \<Longrightarrow> queueOk [] False None [] stt rv (pa @ pl) n"
  by (auto simp: queueOk_def sorted_wrt_append split: option.splits)

lemma queueOk_playing:
  "queueOk q ip aa pl stt rv pa n \<Longrightarrow> u \<in> set pl \<Longrightarrow> aa = Some u \<and> pl = [u]"
  by (auto simp: queueOk_def split: option.splits)

lemma queueInv_view: "queueView st' = queueView st \<Longrightarrow> queueInv st' = queueInv st"
  by (simp add: queueView_def queueInv_def)

lemma queueInv_initial: "queueInv initial"
  by (simp add: queueInv_def queueOk_def initial_def)

lemma queueView_finalize:
  "pendingAudioChunks st \<noteq> [] \<Longrightarrow>
   queueView (finalizeAudioResponse st)
     = (if isPlayingAudio st
        then (audioQueue st @ [length (objectURLs st)], True, activeAudio st, playing st,
              started st, revoked st, paused st, Suc (length (objectURLs st)))
        else (case audioQueue st @ [length (objectURLs st)] of
                v # rest \<Rightarrow> (rest, True, Some v, playing st @ [v], started st @ [v],
                              revoked st, paused st, Suc (length (objectURLs st)))
              | [] \<Rightarrow> queueView st))"
  by (simp add: queueView_def finalizeAudioResponse_def playNextAudio_def addMessage_def
        Let_def split: list.splits)

lemma queueInv_finalize:
  assumes "queueInv st"
  shows "queueInv (finalizeAudioResponse st)"
proof (cases "pendingAudioChunks st = []")
  case True
  then show ?thesis using assms by (simp add: finalizeAudioResponse_def)
next
  case False
  note v = queueView_finalize [OF False]
  show ?thesis
  proof (cases "isPlayingAudio st")
    case True
    with assms have "queueOk (audioQueue st @ [length (objectURLs st)]) True (activeAudio st)
        (playing st) (started st) (revoked st) (paused st) (Suc (length (objectURLs st)))"
      by (auto simp: queueInv_def intro: queueOk_enqueue_busy)
    with v True show ?thesis by (simp add: queueInv_def queueView_def)
  next
    case idle: False
    with assms have e: "audioQueue st = []" "playing st = []"
      by (auto simp: queueInv_def queueOk_def)
    from assms idle have "queueOk [] True (Some (length (objectURLs st)))
        [length (objectURLs st)] (started st @ [length (objectURLs st)]) (revoked st) (paused st)
        (Suc (length (objectURLs st)))"
      by (auto simp: queueInv_def intro: queueOk_enqueue_idle)
    with v idle e show ?thesis by (simp add: queueInv_def queueView_def)
  qed
qed

lemma queueView_finished:
  "queueView (audioFinished u st)
     = (case audioQueue st of
          [] \<Rightarrow> ([], False, None, removeAll u (playing st), started st, revoked st @ [u],
                 paused st, length (objectURLs st))
        | v # rest \<Rightarrow> (rest, True, Some v, removeAll u (playing st) @ [v], started st @ [v],
                       revoked st @ [u], paused st, length (objectURLs st)))"
  by (simp add: queueView_def audioFinished_def playNextAudio_def updateConnectionStatus_def
        Let_def split: list.splits)

lemma queueInv_finished:
  assumes "queueInv st" "u \<in> set (playing st)"
  shows "queueInv (audioFinished u st)"
proof -
  from assms have p: "playing st = [u]"
    by (auto simp: queueInv_def dest: queueOk_playing)
  show ?thesis
  proof (cases "audioQueue st")
    case Nil
    with assms have "queueOk [] False None [] (started st) (revoked st @ [u]) (paused st)
        (length (objectURLs st))"
      by (auto simp: queueInv_def intro: queueOk_finished_last)
    with queueView_finished [of u st] Nil p show ?thesis
      by (simp add: queueInv_def queueView_def)
  next
    case (Cons v rest)
    with assms have "queueOk rest True (Some v) [v] (started st @ [v]) (revoked st @ [u])
        (paused st) (length (objectURLs st))"
      by (auto simp: queueInv_def intro: queueOk_finished_next)
    with queueView_finished [of u st] Cons p show ?thesis
      by (simp add: queueInv_def queueView_def)
  qed
qed

lemma queueView_reset:
  "queueView (resetAudioPlaybackState st)
     = ([], False, None,
        (case activeAudio st of None \<Rightarrow> playing st | Some u \<Rightarrow> removeAll u (playing st)),
        started st, revoked st,
        (case activeAudio st of None \<Rightarrow> paused st | Some u \<Rightarrow> paused st @ [u]),
        length (objectURLs st))"
  by (simp add: queueView_def resetAudioPlaybackState_def Let_def split: option.splits)

lemma queueInv_reset:
  assumes "queueInv st"
  shows "queueInv (resetAudioPlaybackState st)"
proof -
  from assms have "queueOk [] False None [] (started st) (revoked st)
      (paused st @ playing st) (length (objectURLs st))"
    by (auto simp: queueInv_def intro: queueOk_reset)
  moreover from assms have "playing st = (case activeAudio st of None \<Rightarrow> [] | Some u \<Rightarrow> [u])"
    by (simp add: queueInv_def queueOk_def)
  ultimately show ?thesis
    using queueView_reset [of st]
    by (auto simp: queueInv_def queueView_def split: option.splits)
qed

lemma queueView_stopRecording [simp]: "queueView (stopRecording st) = queueView st"
  by (simp add: stopRecording_eq queueView_def)

lemma queueView_speak [simp]: "queueView (speakTextResponse b st) = queueView st"
  by (simp add: speakTextResponse_def queueView_def addMessage_def updateConnectionStatus_def
        split: option.splits)

lemma queueView_handleSendMessage [simp]: "queueView (handleSendMessage t st) = queueView st"
  by (simp add: handleSendMessage_def queueView_def addMessage_def Let_def)

lemma queueView_executeAssistAction [simp]:
  "queueView (executeAssistAction t st a) = queueView st"
proof (cases a)
  case ActSendText
  then show ?thesis by (simp add: executeAssistAction_def)
qed (simp_all add: executeAssistAction_def queueView_def navigateTo_def openChatView_def
       showNavGuide_def addMessage_def Let_def split: option.splits)

lemma queueView_executeAssistActions [simp]:
  "queueView (executeAssistActions t acts st) = queueView st"
  unfolding executeAssistActions_def
  by (induction acts arbitrary: st) simp_all

lemma queueView_bufferAudioChunk [simp]: "queueView (bufferAudioChunk a m st) = queueView st"
  by (simp add: bufferAudioChunk_def queueView_def split: option.splits)

lemma queueView_updates [simp]:
  "queueView (st\<lparr>navResponseTimeout := x1\<rparr>) = queueView st"
  "queueView (st\<lparr>navResponding := x2\<rparr>) = queueView st"
  "queueView (st\<lparr>lastResponseText := x3\<rparr>) = queueView st"
  "queueView (st\<lparr>navAwaitingResponse := x4\<rparr>) = queueView st"
  "queueView (st\<lparr>awaitingRealtimeResponse := x5\<rparr>) = queueView st"
  "queueView (st\<lparr>navSuppressRealtime := x6\<rparr>) = queueView st"
  "queueView (st\<lparr>pendingAudioChunks := x7\<rparr>) = queueView st"
  "queueView (st\<lparr>chatMessages := x8\<rparr>) = queueView st"
  "queueView (st\<lparr>assistInFlight := x9\<rparr>) = queueView st"
  "queueView (st\<lparr>currentPage := x10\<rparr>) = queueView st"
  "queueView (st\<lparr>mediaRequests := x11\<rparr>) = queueView st"
  by (simp_all add: queueView_def)

lemma queueView_turn_complete:
  "queueView (handleLiveMessage P t TurnComplete st)
     = (if \<not> navSuppressRealtime st \<and> pendingAudioChunks st \<noteq> []
        then queueView (finalizeAudioResponse (clearNavSpeechFallback st)) else queueView st)"
  by (simp add: handleLiveMessage_def clearNavSpeechFallback_eq setNavResponding_def Let_def)

lemma queueView_live:
  assumes "message \<noteq> TurnComplete"
  shows "queueView (handleLiveMessage P t message st) = queueView st"
proof (cases message)
  case ConnectedMsg
  then show ?thesis by (simp add: handleLiveMessage_def addMessage_def)
next
  case (TextMsg c)
  then show ?thesis
    by (simp add: handleLiveMessage_def addMessage_def scheduleNavSpeechFallback_def
          clearNavSpeechFallback_eq setNavResponding_def Let_def)
next
  case (AudioMsg a m)
  then show ?thesis
    by (simp add: handleLiveMessage_def clearNavSpeechFallback_eq setNavResponding_def)
next
  case (TranscriptionMsg c)
  then show ?thesis by (simp add: handleLiveMessage_def addMessage_def handleNavAssist_def)
next
  case (NavigateMsg a b)
  then show ?thesis
    by (simp add: handleLiveMessage_def addMessage_def scheduleNavSpeechFallback_def
          clearNavSpeechFallback_eq setNavResponding_def navigateTo_def Let_def)
next
  case TurnComplete
  then show ?thesis using assms by simp
next
  case (ErrorMsg c)
  then show ?thesis by (simp add: handleLiveMessage_def addMessage_def)
next
  case OtherMsg
  then show ?thesis by (simp add: handleLiveMessage_def)
qed

lemma queueInv_live:
  assumes "queueInv st"
  shows "queueInv (handleLiveMessage P t message st)"
proof (cases "message = TurnComplete")
  case True
  have "queueView (clearNavSpeechFallback st) = queueView st"
    by (simp add: clearNavSpeechFallback_eq)
  then have c: "queueInv (clearNavSpeechFallback st)"
    using assms queueInv_view by blast
  show ?thesis
  proof (cases "\<not> navSuppressRealtime st \<and> pendingAudioChunks st \<noteq> []")
    case finalize: True
    then have "queueView (handleLiveMessage P t TurnComplete st)
                 = queueView (finalizeAudioResponse (clearNavSpeechFallback st))"
      by (simp add: queueView_turn_complete)
    then show ?thesis
      using queueInv_finalize [OF c] queueInv_view True by blast
  next
    case False
    then have "queueView (handleLiveMessage P t TurnComplete st) = queueView st"
      by (auto simp: queueView_turn_complete)
    then show ?thesis using assms queueInv_view True by blast
  qed
next
  case False
  then show ?thesis using assms queueView_live [OF False] queueInv_view by blast
qed

lemma queueView_fireNavTimeout [simp]: "queueView (fireNavTimeout t st) = queueView st"
  by (simp add: fireNavTimeout_def navTimeoutCallback_def split: option.splits timer.splits)

lemma queueView_assist [simp]: "queueView (handleNavAssistReply t outcome st) = queueView st"
  by (cases outcome)
    (simp_all add: handleNavAssistReply_def addMessage_def clearNavSpeechFallback_eq Let_def
       split: option.splits)

lemma queueView_media [simp]: "queueView (startRecordingReply g st) = queueView st"
  by (simp add: startRecordingReply_def queueView_def addMessage_def setNavResponding_def
        updateConnectionStatus_def Let_def split: list.splits prod.splits)

lemma queueView_query [simp]: "queueView (handleSendMessageReply t outcome st) = queueView st"
  by (cases outcome)
    (simp_all add: handleSendMessageReply_def querySucceeded_def removeLoadingMessage_def
       addMessage_def queueView_def Let_def split: option.splits)

lemma queueView_upload [simp]:
  "queueView (handleFileUpload f st) = queueView st"
  "queueView (handleFileUploadReply outcome st) = queueView st"
proof -
  show "queueView (handleFileUpload f st) = queueView st"
    by (cases f) (simp_all add: handleFileUpload_def queueView_def)
  show "queueView (handleFileUploadReply outcome st) = queueView st"
  proof (cases "uploadInFlight st")
    case Nil
    then show ?thesis by (simp add: handleFileUploadReply_def)
  next
    case (Cons name rest)
    show ?thesis
    proof (cases outcome)
      case (UploadFailed msg)
      with Cons show ?thesis
        by (simp add: handleFileUploadReply_def queueView_def)
    next
      case (UploadResponse ok detail)
      with Cons show ?thesis
        by (cases ok) (simp_all add: handleFileUploadReply_def queueView_def addMessage_def)
    qed
  qed
qed

lemma queueView_misc [simp]:
  "queueView (playRejected st) = queueView st"
  "queueView (updateConnectionStatus c l st) = queueView st"
  "queueView (onaudioprocess inputData st) = queueView st"
  "queueView (st\<lparr>messageInput := s\<rparr>) = queueView st"
  "queueView (st\<lparr>wsOpen := w\<rparr>) = queueView st"
  by (simp_all add: playRejected_def updateConnectionStatus_def onaudioprocess_def
        addMessage_def queueView_def)

lemma queueInv_startRecording:
  assumes "queueInv st"
  shows "queueInv (startRecording m b st)"
proof (cases "isRecording st")
  case True
  then show ?thesis using assms by (simp add: startRecording_def)
next
  case False
  have "queueView (resetNavAssistState st) = queueView st"
    by (simp add: resetNavAssistState_def clearNavSpeechFallback_eq)
  then have "queueInv (resetNavAssistState st)" using assms queueInv_view by blast
  then have r: "queueInv (resetAudioPlaybackState (resetNavAssistState st))"
    by (rule queueInv_reset)
  have "queueView (startRecording m b st)
          = queueView (resetAudioPlaybackState (resetNavAssistState st))"
    using False by (simp add: startRecording_def)
  then show ?thesis using r queueInv_view by blast
qed

lemma queueInv_step:
  assumes "queueInv st" "fromPlaying ev st"
  shows "queueInv (step P t ev st)"
proof (cases ev)
  case (Live message)
  then show ?thesis using queueInv_live [OF assms(1)] by (simp add: step_def)
next
  case (AudioEnded u)
  then show ?thesis using assms queueInv_finished by (simp add: step_def fromPlaying_def)
next
  case (AudioFailed u)
  then show ?thesis using assms queueInv_finished by (simp add: step_def fromPlaying_def)
next
  case (ToggleRecording m b)
  have "queueInv (stopRecording st)"
    using assms(1) queueInv_view [OF queueView_stopRecording] by blast
  then show ?thesis
    using ToggleRecording queueInv_startRecording [OF assms(1)]
    by (simp add: step_def toggleRecording_def)
next
  case (AssistSettled outcome)
  then show ?thesis
    using assms(1) queueInv_view [OF queueView_assist] by (simp add: step_def)
next
  case NavTimerDue
  then show ?thesis
    using assms(1) queueInv_view [OF queueView_fireNavTimeout] by (simp add: step_def)
next
  case PlayRejected
  then show ?thesis
    using assms(1) queueInv_view [OF queueView_misc(1)] by (simp add: step_def)
next
  case SpeechDone
  then show ?thesis
    using assms(1) queueInv_view [OF queueView_misc(2)] by (simp add: step_def)
next
  case (MediaSettled g)
  then show ?thesis
    using assms(1) queueInv_view [OF queueView_media] by (simp add: step_def)
next
  case (AudioProcess inputData)
  then show ?thesis
    using assms(1) queueInv_view [OF queueView_misc(3)] by (simp add: step_def)
next
  case (TypeMessage s)
  then show ?thesis
    using assms(1) queueInv_view [OF queueView_misc(4)] by (simp add: step_def)
next
  case SendMessage
  then show ?thesis
    using assms(1) queueInv_view [OF queueView_handleSendMessage] by (simp add: step_def)
next
  case (QuerySettled outcome)
  then show ?thesis
    using assms(1) queueInv_view [OF queueView_query] by (simp add: step_def)
next
  case (FileChosen f)
  then show ?thesis
    using assms(1) queueInv_view [OF queueView_upload(1)] by (simp add: step_def)
next
  case (UploadSettled outcome)
  then show ?thesis
    using assms(1) queueInv_view [OF queueView_upload(2)] by (simp add: step_def)
next
  case SocketOpened
  have "queueView (updateConnectionStatus Connected ''Ready'' (st\<lparr>wsOpen := True\<rparr>))
          = queueView st" by simp
  from queueInv_view [OF this] show ?thesis
    using assms(1) SocketOpened by (simp add: step_def)
next
  case SocketClosed
  have "queueView (updateConnectionStatus Disconnected ''Disconnected'' (st\<lparr>wsOpen := False\<rparr>))
          = queueView st" by simp
  from queueInv_view [OF this] show ?thesis
    using assms(1) SocketClosed by (simp add: step_def)
qed

lemma queueInv_run:
  assumes "queueInv st" "reportsFromPlaying P evs st"
  shows "queueInv (run P evs st)"
  using assms
proof (induction evs arbitrary: st)
  case Nil
  then show ?case by simp
next
  case (Cons e evs)
  obtain t ev where e: "e = (t, ev)" by (cases e)
  with Cons.prems have "fromPlaying ev st" "reportsFromPlaying P evs (step P t ev st)" by simp_all
  with Cons.IH [of "step P t ev st"] queueInv_step [OF Cons.prems(1)] e show ?case by simp
qed

lemma paused_view: "queueView st' = queueView st \<Longrightarrow> paused st' = paused st"
  by (simp add: queueView_def)

lemma paused_finalize [simp]: "paused (finalizeAudioResponse st) = paused st"
proof (cases "pendingAudioChunks st = []")
  case True
  then show ?thesis by (simp add: finalizeAudioResponse_def)
next
  case False
  from queueView_finalize [OF False] show ?thesis
    by (simp add: queueView_def split: if_splits list.splits)
qed

lemma paused_finished [simp]: "paused (audioFinished u st) = paused st"
  using queueView_finished [of u st] by (simp add: queueView_def split: list.splits)

lemma paused_live [simp]: "paused (handleLiveMessage P t message st) = paused st"
proof (cases "message = TurnComplete")
  case True
  have "paused (clearNavSpeechFallback st) = paused st"
    by (simp add: clearNavSpeechFallback_eq)
  then show ?thesis
    using queueView_turn_complete [of P t st] True
    by (auto simp: queueView_def split: if_splits)
next
  case False
  from queueView_live [OF False] show ?thesis by (rule paused_view)
qed

lemmas paused_frames =
  queueView_assist [THEN paused_view] queueView_fireNavTimeout [THEN paused_view]
  queueView_media [THEN paused_view] queueView_query [THEN paused_view]
  queueView_upload [THEN paused_view] queueView_misc [THEN paused_view]
  queueView_handleSendMessage [THEN paused_view]

lemma paused_step:
  assumes "case ev of ToggleRecording m b \<Rightarrow> isRecording st | _ \<Rightarrow> True"
  shows "paused (step P t ev st) = paused st"
proof (cases ev)
  case (ToggleRecording m b)
  with assms have "isRecording st" by simp
  then show ?thesis
    using ToggleRecording paused_view [OF queueView_stopRecording]
    by (simp add: step_def toggleRecording_def)
qed (simp_all add: step_def paused_frames)

lemma paused_run:
  assumes "noRecordingStart P evs st"
  shows "paused (run P evs st) = paused st"
  using assms
proof (induction evs arbitrary: st)
  case Nil
  then show ?case by simp
next
  case (Cons e evs)
  obtain t ev where e: "e = (t, ev)" by (cases e)
  with Cons.prems have a: "case ev of ToggleRecording m b \<Rightarrow> isRecording st | _ \<Rightarrow> True"
    and r: "noRecordingStart P evs (step P t ev st)" by simp_all
  from Cons.IH [OF r] paused_step [OF a, of P t] e show ?case by simp
qed

lemma reportsFromPlaying_append:
  "reportsFromPlaying P (xs @ ys) st = (reportsFromPlaying P xs st \<and> reportsFromPlaying P ys (run P xs st))"
  by (induction xs arbitrary: st) auto

lemma sorted_le_last:
  fixes xs :: "nat list"
  assumes "sorted_wrt (<) xs" "x \<in> set xs"
  shows "x \<le> last xs"
  using assms
proof (induction xs)
  case Nil
  then show ?case by simp
next
  case (Cons a xs)
  show ?case
  proof (cases "xs = []")
    case True
    with Cons.prems show ?thesis by simp
  next
    case False
    then have l: "last xs \<in> set xs" by simp
    show ?thesis
    proof (cases "x = a")
      case True
      with Cons.prems(1) l False show ?thesis by (auto simp: less_imp_le)
    next
      case ne: False
      with Cons.prems have "x \<in> set xs" "sorted_wrt (<) xs" by simp_all
      with Cons.IH False show ?thesis by simp
    qed
  qed
qed

lemma finished_last_clip:
  "audioQueue s = [] \<Longrightarrow>
   \<not> isPlayingAudio (audioFinished u s)
   \<and> connectionStatus (audioFinished u s) = (Connected, ''Ready'')"
  by (simp add: audioFinished_def playNextAudio_def updateConnectionStatus_def Let_def)

subsection \<open>The playback queue of the live-chat page\<close>

lemma lcQueueInv_view: "lcQueueView st' = lcQueueView st \<Longrightarrow> lcQueueInv st' = lcQueueInv st"
  by (simp add: lcQueueView_def lcQueueInv_def)

lemma lcQueueInv_initial: "lcQueueInv initial"
  by (simp add: lcQueueInv_def queueOk_def initial_def)

lemma lcQueueView_finalize:
  "pendingAudioChunks st \<noteq> [] \<Longrightarrow>
   lcQueueView (lcFinalizeAudioResponse st)
     = (if isPlayingAudio st
        then (audioQueue st @ [length (objectURLs st)], True, playing st,
              started st, revoked st, Suc (length (objectURLs st)))
        else (case audioQueue st @ [length (objectURLs st)] of
                v # rest \<Rightarrow> (rest, True, playing st @ [v], started st @ [v],
                              revoked st, Suc (length (objectURLs st)))
              | [] \<Rightarrow> lcQueueView st))"
  by (simp add: lcQueueView_def lcFinalizeAudioResponse_def lcPlayNextAudio_def
        addSystemMessage_def Let_def split: list.splits)

lemma lcQueueInv_finalize:
  assumes "lcQueueInv st"
  shows "lcQueueInv (lcFinalizeAudioResponse st)"
proof (cases "pendingAudioChunks st = []")
  case True
  then show ?thesis using assms by (simp add: lcFinalizeAudioResponse_def)
next
  case False
  note v = lcQueueView_finalize [OF False]
  show ?thesis
  proof (cases "isPlayingAudio st")
    case True
    with assms have "queueOk (audioQueue st @ [length (objectURLs st)]) True
        (case playing st of [] \<Rightarrow> None | u # us \<Rightarrow> Some u)
        (playing st) (started st) (revoked st) [] (Suc (length (objectURLs st)))"
      by (auto simp: lcQueueInv_def intro: queueOk_enqueue_busy)
    with v True show ?thesis by (simp add: lcQueueInv_def lcQueueView_def)
  next
    case idle: False
    with assms have e: "audioQueue st = []" "playing st = []"
      by (auto simp: lcQueueInv_def queueOk_def split: list.splits)
    from assms idle have "queueOk [] True (Some (length (objectURLs st)))
        [length (objectURLs st)] (started st @ [length (objectURLs st)]) (revoked st) []
        (Suc (length (objectURLs st)))"
      by (auto simp: lcQueueInv_def intro: queueOk_enqueue_idle)
    with v idle e show ?thesis by (simp add: lcQueueInv_def lcQueueView_def)
  qed
qed

lemma lcQueueView_finished:
  "lcQueueView (lcAudioFinished u st)
     = (case audioQueue st of
          [] \<Rightarrow> ([], False, removeAll u (playing st), started st, revoked st @ [u],
                 length (objectURLs st))
        | v # rest \<Rightarrow> (rest, True, removeAll u (playing st) @ [v], started st @ [v],
                       revoked st @ [u], length (objectURLs st)))"
  by (simp add: lcQueueView_def lcAudioFinished_def lcPlayNextAudio_def split: list.splits)

lemma lcQueueInv_finished:
  assumes "lcQueueInv st" "u \<in> set (playing st)"
  shows "lcQueueInv (lcAudioFinished u st)"
proof -
  from assms have p: "playing st = [u]"
    by (auto simp: lcQueueInv_def dest: queueOk_playing)
  show ?thesis
  proof (cases "audioQueue st")
    case Nil
    with assms have "queueOk [] False None [] (started st) (revoked st @ [u]) []
        (length (objectURLs st))"
      by (auto simp: lcQueueInv_def intro: queueOk_finished_last)
    with lcQueueView_finished [of u st] Nil p show ?thesis
      by (simp add: lcQueueInv_def lcQueueView_def)
  next
    case (Cons v rest)
    with assms have "queueOk rest True (Some v) [v] (started st @ [v]) (revoked st @ [u])
        [] (length (objectURLs st))"
      by (auto simp: lcQueueInv_def intro: queueOk_finished_next)
    with lcQueueView_finished [of u st] Cons p show ?thesis
      by (simp add: lcQueueInv_def lcQueueView_def)
  qed
qed

lemma lcQueueView_frames [simp]:
  "lcQueueView (lcAddMessage body ty st) = lcQueueView st"
  "lcQueueView (addSystemMessage body err st) = lcQueueView st"
  "lcQueueView (lcBufferAudioChunk a m st) = lcQueueView st"
  "lcQueueView (lcPlayRejected st) = lcQueueView st"
  "lcQueueView (lcStopRecording st) = lcQueueView st"
  "lcQueueView (lcToggleRecording st) = lcQueueView st"
  "lcQueueView (lcStartRecordingReply g st) = lcQueueView st"
  "lcQueueView (lcOnaudioprocess inputData st) = lcQueueView st"
  "lcQueueView (sendTextMessage st) = lcQueueView st"
  "lcQueueView (switchMode md st) = lcQueueView st"
  "lcQueueView (st\<lparr>messageInput := x1\<rparr>) = lcQueueView st"
  "lcQueueView (st\<lparr>statusMessage := x2\<rparr>) = lcQueueView st"
  by (simp_all add: lcQueueView_def lcAddMessage_def addSystemMessage_def
        lcBufferAudioChunk_def lcPlayRejected_def lcStopRecording_eq lcToggleRecording_def
        lcStartRecordingReply_def lcOnaudioprocess_def sendTextMessage_def switchMode_def
        Let_def split: option.splits list.splits)

lemma lcQueueInv_live:
  assumes "lcQueueInv st"
  shows "lcQueueInv (handleServerMessage message st)"
proof (cases message)
  case LcTurnComplete
  have "lcQueueInv (st\<lparr>statusMessage := ''Response complete''\<rparr>)"
    using assms lcQueueInv_view [OF lcQueueView_frames(12)] by blast
  from lcQueueInv_finalize [OF this] LcTurnComplete show ?thesis
    by (simp add: handleServerMessage_def)
next
  case LcConnected
  then show ?thesis
    using assms lcQueueInv_view [OF lcQueueView_frames(2)] by (simp add: handleServerMessage_def)
next
  case LcSetupComplete
  then show ?thesis using assms by (simp add: handleServerMessage_def)
next
  case (LcText c)
  then show ?thesis
    using assms lcQueueInv_view [OF lcQueueView_frames(1)] by (simp add: handleServerMessage_def)
next
  case (LcAudio a m)
  then show ?thesis
    using assms lcQueueInv_view [OF lcQueueView_frames(3)] by (simp add: handleServerMessage_def)
next
  case (LcError c)
  then show ?thesis
    using assms lcQueueInv_view [OF lcQueueView_frames(2)] by (simp add: handleServerMessage_def)
next
  case LcToolCall
  then show ?thesis
    using assms lcQueueInv_view [OF lcQueueView_frames(2)] by (simp add: handleServerMessage_def)
next
  case (LcTranscription c)
  then show ?thesis
    using assms lcQueueInv_view [OF lcQueueView_frames(1)] by (simp add: handleServerMessage_def)
next
  case LcOther
  then show ?thesis using assms by (simp add: handleServerMessage_def)
qed

lemma lcQueueInv_step:
  assumes "lcQueueInv st" "lcFromPlaying ev st"
  shows "lcQueueInv (lcStep ev st)"
proof (cases ev)
  case (LcLive message)
  then show ?thesis using lcQueueInv_live [OF assms(1)] by (simp add: lcStep_def)
next
  case (LcAudioEnded u)
  then show ?thesis using assms lcQueueInv_finished by (simp add: lcStep_def lcFromPlaying_def)
next
  case (LcAudioFailed u)
  then show ?thesis using assms lcQueueInv_finished by (simp add: lcStep_def lcFromPlaying_def)
next
  case (LcLoadedMetadata u d)
  then show ?thesis
    using assms by (simp add: lcStep_def lcFromPlaying_def lcLoadedMetadata_def)
next
  case LcPlayRejected
  then show ?thesis
    using assms(1) lcQueueInv_view [OF lcQueueView_frames(4)] by (simp add: lcStep_def)
next
  case LcToggleRecording
  then show ?thesis
    using assms(1) lcQueueInv_view [OF lcQueueView_frames(6)] by (simp add: lcStep_def)
next
  case (LcMediaSettled g)
  then show ?thesis
    using assms(1) lcQueueInv_view [OF lcQueueView_frames(7)] by (simp add: lcStep_def)
next
  case (LcAudioProcess inputData)
  then show ?thesis
    using assms(1) lcQueueInv_view [OF lcQueueView_frames(8)] by (simp add: lcStep_def)
next
  case (LcTypeText s)
  then show ?thesis
    using assms(1) lcQueueInv_view [OF lcQueueView_frames(11)] by (simp add: lcStep_def)
next
  case LcSendText
  then show ?thesis
    using assms(1) lcQueueInv_view [OF lcQueueView_frames(9)] by (simp add: lcStep_def)
next
  case (LcSwitchMode md)
  then show ?thesis
    using assms(1) lcQueueInv_view [OF lcQueueView_frames(10)] by (simp add: lcStep_def)
next
  case LcSocketOpened
  have "lcQueueView (st\<lparr>wsOpen := True, connectionStatus := (Connected, ''Connected''),
          statusMessage := ''Ready! Click to start recording''\<rparr>) = lcQueueView st"
    by (simp add: lcQueueView_def)
  from lcQueueInv_view [OF this] show ?thesis
    using assms(1) LcSocketOpened by (simp add: lcStep_def)
next
  case LcSocketClosed
  have "lcQueueView (st\<lparr>wsOpen := False, connectionStatus := (Disconnected, ''Disconnected''),
          statusMessage := ''Disconnected. Reconnecting...''\<rparr>) = lcQueueView st"
    by (simp add: lcQueueView_def)
  from lcQueueInv_view [OF this] show ?thesis
    using assms(1) LcSocketClosed by (simp add: lcStep_def)
qed

lemma lcQueueInv_run:
  assumes "lcQueueInv st" "lcReportsFromPlaying evs st"
  shows "lcQueueInv (lcRun evs st)"
  using assms
proof (induction evs arbitrary: st)
  case Nil
  then show ?case by simp
next
  case (Cons ev evs)
  then have "lcFromPlaying ev st" "lcReportsFromPlaying evs (lcStep ev st)" by simp_all
  with Cons.IH [of "lcStep ev st"] lcQueueInv_step [OF Cons.prems(1)] show ?case by simp
qed

lemma lcFinished_last_clip:
  "audioQueue s = [] \<Longrightarrow>
   \<not> isPlayingAudio (lcAudioFinished u s)
   \<and> statusMessage (lcAudioFinished u s) = ''Ready! Click to start recording''"
  by (simp add: lcAudioFinished_def lcPlayNextAudio_def)

lemma queueOk_serial:
  assumes "queueOk q ip aa pl stt rv pa n"
  shows "length pl \<le> 1" and "sorted_wrt (<) stt"
    and "\<And>A B. A < B \<Longrightarrow> B \<in> set stt \<Longrightarrow> A \<notin> set pl"
    and "set stt = set rv \<union> set pa \<union> set pl"
proof -
  show "length pl \<le> 1" using assms by (auto simp: queueOk_def split: option.splits)
  show s: "sorted_wrt (<) stt" using assms by (simp add: queueOk_def sorted_wrt_append)
  show "set stt = set rv \<union> set pa \<union> set pl" using assms by (simp add: queueOk_def)
  show "A \<notin> set pl" if "A < B" "B \<in> set stt" for A B
  proof
    assume "A \<in> set pl"
    with assms have l: "A = last stt" by (auto simp: queueOk_def)
    from sorted_le_last [OF s that(2)] l that(1) show False by simp
  qed
qed


lemma restarted_run:
  "run noJSON restarted initial = navTurn\<lparr>mediaRequests := [(Nav, NavMicButton)]\<rparr>"
  by (simp add: restarted_def navTurn_eq initial_def handler_defs Let_def)

lemmas queue_trace_defs =
  navTurn_eq initial_def handler_defs Let_def atob_AQID atob_BAUG fromPlaying_def queueView_def

lemma twoClips_view:
  "queueView (run noJSON twoClips (run noJSON restarted initial))
     = ([], True, Some 1, [1], [0, 1], [0], [], 2)"
  unfolding restarted_run by (simp add: twoClips_def queue_trace_defs)

lemma twoClips_reports: "reportsFromPlaying noJSON (restarted @ twoClips) initial"
  unfolding reportsFromPlaying_append restarted_run
  by (simp add: restarted_def twoClips_def queue_trace_defs)

lemma twoClips_uninterrupted: "noRecordingStart noJSON twoClips (run noJSON restarted initial)"
  unfolding restarted_run by (simp add: twoClips_def queue_trace_defs)

lemma interrupted_view:
  "queueView (run noJSON interrupted initial) = ([], True, Some 1, [1], [0, 1], [], [0], 2)"
  by (simp add: interrupted_def queue_trace_defs)

lemma interrupted_reports: "reportsFromPlaying noJSON interrupted initial"
  by (simp add: interrupted_def queue_trace_defs)

lemma staleFailure_view:
  "queueView (run noJSON staleFailure initial)
     = ([], True, Some 2, [1, 2], [0, 1, 2], [0], [0], 3)"
  by (simp add: staleFailure_def interrupted_def queue_trace_defs)

lemma lcThreeClips_view:
  "lcQueueView (lcRun lcThreeClips initial) = ([1, 2], True, [0], [0], [], 3)"
  by (simp add: lcThreeClips_def lcStep_def handleServerMessage_def lcBufferAudioChunk_def
        lcFinalizeAudioResponse_def lcPlayNextAudio_def addSystemMessage_def initial_def
        truthy_def jsOr_def atob_AQID atob_BAUG lcQueueView_def Let_def)

lemma lcRun_append: "lcRun (xs @ ys) st = lcRun ys (lcRun xs st)"
  by (induction xs arbitrary: st) auto

lemma lcReportsFromPlaying_append:
  "lcReportsFromPlaying (xs @ ys) st
     = (lcReportsFromPlaying xs st \<and> lcReportsFromPlaying ys (lcRun xs st))"
  by (induction xs arbitrary: st) auto

lemma lcThreeClips_reports: "lcReportsFromPlaying lcThreeClips initial"
  by (simp add: lcThreeClips_def lcFromPlaying_def)

lemma lc_after_three:
  assumes "lcQueueView st = ([1, 2], True, [0], [0], [], 3)"
  shows "lcQueueView (lcRun [LcLoadedMetadata 0 (Finite 0), LcAudioEnded 0] st)
           = ([], True, [1, 2], [0, 1, 2], [0, 0], 3)"
    and "lcQueueView (lcRun [LcLoadedMetadata 0 (Finite 2), LcAudioEnded 0, LcAudioFailed 1] st)
           = ([], True, [2], [0, 1, 2], [0, 1], 3)"
    and "lcReportsFromPlaying [LcLoadedMetadata 0 (Finite 2), LcAudioEnded 0, LcAudioFailed 1] st"
    and "lcQueueView (lcRun [LcLoadedMetadata 0 (Finite 0)] st)
           = ([2], True, [0, 1], [0, 1], [0], 3)"
  using assms
  by (simp_all add: lcStep_def lcLoadedMetadata_def lcAudioFinished_def lcPlayNextAudio_def
        lcQueueView_def lcFromPlaying_def)



subsection \<open>Capture encoding\<close>

lemma convertSample_finite: "convertSample (Finite q) = word_of_int (pcmValue q)"
proof -
  define s where "s = max (- 1) (min 1 q)"
  have "mathMax (Finite (- 1)) (mathMin (Finite 1) (Finite q)) = Finite s"
    by (simp add: s_def)
  then have "convertSample (Finite q)
      = toInt16 (if lessThanZero (Finite s) then timesConst (Finite s) 32768
                 else timesConst (Finite s) 32767)"
    by (simp add: convertSample_def)
  also have "\<dots> = word_of_int (truncateToZero (if s < 0 then s * 32768 else s * 32767))"
    by simp
  finally show ?thesis
    unfolding pcmValue_def Let_def s_def [symmetric] .
qed

lemma pcmValue_range: "- 32768 \<le> pcmValue q \<and> pcmValue q \<le> 32767"
proof -
  define s where "s = max (- 1) (min 1 q)"
  have b: "- 1 \<le> s" "s \<le> 1" by (simp_all add: s_def)
  have v: "pcmValue q = truncateToZero (if s < 0 then s * 32768 else s * 32767)"
    unfolding pcmValue_def Let_def s_def [symmetric] ..
  show ?thesis
  proof (cases "s < 0")
    case True
    then have neg: "s * 32768 < 0" by simp
    have lo: "of_int (- 32769) < s * 32768" using b(1) by simp
    have "- 32769 < \<lceil>s * 32768\<rceil>" using lo by (simp only: less_ceiling_iff)
    moreover have "\<lceil>s * 32768\<rceil> \<le> 0" using neg by (simp add: ceiling_le_iff)
    ultimately show ?thesis
      using True neg by (simp add: v truncateToZero_def)
  next
    case False
    then have pos: "0 \<le> s * 32767" by simp
    have hi: "s * 32767 < of_int 32768" using b(2) by simp
    have "\<lfloor>s * 32767\<rfloor> < 32768" using hi by (simp only: floor_less_iff)
    moreover have "0 \<le> \<lfloor>s * 32767\<rfloor>" using pos by simp
    ultimately show ?thesis
      using False pos by (simp add: v truncateToZero_def)
  qed
qed

lemma sint_convertSample: "sint (convertSample (Finite q)) = pcmValue q"
proof -
  have "- (2 ^ 15) \<le> pcmValue q" "pcmValue q < 2 ^ 15"
    using pcmValue_range [of q] by simp_all
  then have "signed_take_bit 15 (pcmValue q) = pcmValue q"
    by (rule signed_take_bit_int_eq_self)
  then show ?thesis
    by (simp add: convertSample_finite sint_sbintrunc')
qed

lemma convertSample_special:
  "convertSample NaN = 0" "sint (convertSample PosInfinity) = 32767"
  "sint (convertSample NegInfinity) = - 32768"
  by (simp_all add: convertSample_def truncateToZero_def)

lemma int16Bytes_value:
  assumes "int16Bytes w = [lo, hi]"
  shows "unat lo + 256 * unat hi = unat w"
proof -
  from assms have lo: "lo = ucast w" and hi: "hi = ucast (drop_bit 8 w)"
    by (simp_all add: int16Bytes_def)
  have w: "unat w < 65536" using unsigned_less [of w, where 'a = nat] by simp
  have a: "unat lo = unat w mod 256"
    by (simp add: lo unsigned_ucast_eq take_bit_eq_mod)
  have "unat (drop_bit 8 w) = unat w div 256"
    unfolding unat_drop_bit_eq by (simp add: drop_bit_eq_div)
  then have b: "unat hi = unat w div 256"
    using w by (simp add: hi unsigned_ucast_eq take_bit_eq_mod)
  show ?thesis using a b by simp
qed

lemma pcmBuffer_length: "length (pcmBuffer inputData) = 2 * length inputData"
  by (induction inputData) (simp_all add: pcmBuffer_def int16Bytes_def)

lemma pcmBuffer_nth:
  "i < length inputData \<Longrightarrow>
   unat (pcmBuffer inputData ! (2 * i)) + 256 * unat (pcmBuffer inputData ! (2 * i + 1))
     = unat (convertSample (inputData ! i))"
proof (induction inputData arbitrary: i)
  case Nil
  then show ?case by simp
next
  case (Cons x xs)
  have c: "pcmBuffer (x # xs) = int16Bytes (convertSample x) @ pcmBuffer xs"
    by (simp add: pcmBuffer_def)
  obtain lo hi where b: "int16Bytes (convertSample x) = [lo, hi]"
    by (simp add: int16Bytes_def)
  show ?case
  proof (cases i)
    case 0
    then show ?thesis using int16Bytes_value [OF b] by (simp add: c b)
  next
    case (Suc j)
    with Cons.prems have "j < length xs" by simp
    from Cons.IH [OF this] Suc show ?thesis by (simp add: c b)
  qed
qed

lemma recordingOnline_eq:
  "recordingOnline = initial\<lparr>wsOpen := True, audioContext := True, mediaRecorder := True,
       isRecording := True, activeRecordingMode := Some Chat,
       activeRecordingTarget := Some MicButton, recordingButtons := {MicButton},
       processorConnected := True, tracksLive := True,
       connectionStatus := (Recording, ''Listening...'')\<rparr>"
  by (simp add: recordingOnline_def initial_def handler_defs Let_def)

lemma recordingOffline_eq:
  "recordingOffline = recordingOnline\<lparr>wsOpen := False,
       connectionStatus := (Disconnected, ''Disconnected'')\<rparr>"
  by (simp add: recordingOffline_def recordingOnline_eq initial_def handler_defs Let_def)

lemma convertSample_half: "convertSample (Finite (1 / 2)) = 16383"
proof -
  have "\<lfloor>(32767 :: rat) / 2\<rfloor> = 16383" by (rule floor_unique) simp_all
  then show ?thesis by (simp add: convertSample_def truncateToZero_def)
qed

lemma convertSample_minus_two: "convertSample (Finite (- 2)) = 32768"
  by (simp add: convertSample_def truncateToZero_def)

lemma sample_buffer: "pcmBuffer [Finite (1 / 2), Finite (- 2), NaN] = [255, 63, 0, 128, 0, 0]"
  by (simp add: pcmBuffer_def int16Bytes_def convertSample_half convertSample_minus_two
        convertSample_special drop_bit_eq_div)

lemma sample_base64: "btoa [255, 63, 0, 128, 0, 0] = ''/z8AgAAA''"
  by (simp add: b64char_def char_of_eq_iff take_bit_eq_mod)

text \<open>
  Claim C8, as amended. While a recording is active and the socket is open, every buffer
  from the microphone is sent as one audio frame tagged \<open>audio/pcm;rate=16000\<close> whose
  payload is the base64 text of the sample bytes, on both pages. The buffer holds two
  bytes per sample, the low byte first. A finite sample is clamped to \<open>[-1, 1]\<close>,
  multiplied by 32768 when negative and by 32767 otherwise, and truncated towards zero;
  the result fits 16 bits. NaN is stored as 0, the infinities as the extreme values.
\<close>

theorem C8_capture_encoding:
  assumes "isRecording st" "wsOpen st"
  shows "sent (onaudioprocess inputData st)
           = sent st @ [AudioFrame (btoa (pcmBuffer inputData)) ''audio/pcm;rate=16000'']
       \<and> sent (lcOnaudioprocess inputData st)
           = sent st @ [AudioFrame (btoa (pcmBuffer inputData)) ''audio/pcm;rate=16000'']
       \<and> length (pcmBuffer inputData) = 2 * length inputData
       \<and> (\<forall>i < length inputData.
             unat (pcmBuffer inputData ! (2 * i)) + 256 * unat (pcmBuffer inputData ! (2 * i + 1))
               = unat (convertSample (inputData ! i)))
       \<and> (\<forall>q. sint (convertSample (Finite q)) = pcmValue q
               \<and> - 32768 \<le> pcmValue q \<and> pcmValue q \<le> 32767)
       \<and> convertSample NaN = 0
       \<and> sint (convertSample PosInfinity) = 32767
       \<and> sint (convertSample NegInfinity) = - 32768"
  using assms pcmBuffer_length pcmBuffer_nth sint_convertSample pcmValue_range
    convertSample_special
  by (simp add: onaudioprocess_def lcOnaudioprocess_def)

theorem C8_capture_encoding_witness:
  "isRecording recordingOnline \<and> wsOpen recordingOnline
   \<and> sent (onaudioprocess [Finite (1 / 2), Finite (- 2), NaN] recordingOnline)
       = [AudioFrame ''/z8AgAAA'' ''audio/pcm;rate=16000'']
   \<and> sent (lcOnaudioprocess [Finite (1 / 2), Finite (- 2), NaN] recordingOnline)
       = [AudioFrame ''/z8AgAAA'' ''audio/pcm;rate=16000'']
   \<and> sint (convertSample (Finite (1 / 2))) = 16383
   \<and> sint (convertSample (Finite (- 2))) = - 32768"
proof -
  have r: "isRecording recordingOnline" "wsOpen recordingOnline" "sent recordingOnline = []"
    by (simp_all add: recordingOnline_eq initial_def)
  note c = C8_capture_encoding [OF r(1,2), of "[Finite (1 / 2), Finite (- 2), NaN]",
      unfolded sample_buffer sample_base64 r(3)]
  from c have a: "sent (onaudioprocess [Finite (1 / 2), Finite (- 2), NaN] recordingOnline)
       = [] @ [AudioFrame ''/z8AgAAA'' ''audio/pcm;rate=16000'']"
    and b: "sent (lcOnaudioprocess [Finite (1 / 2), Finite (- 2), NaN] recordingOnline)
       = [] @ [AudioFrame ''/z8AgAAA'' ''audio/pcm;rate=16000'']"
    by blast+
  have h: "sint (convertSample (Finite (1 / 2))) = 16383"
    "sint (convertSample (Finite (- 2))) = - 32768"
    by (simp_all add: convertSample_half convertSample_minus_two)
  show ?thesis
    using r(1,2) a b h by simp
qed

text \<open>
  Claim C8 as stated fails while the socket is not open: the buffer of an active
  recording is dropped and nothing is sent.
\<close>

theorem C8_offline_buffer_counterexample:
  "isRecording recordingOffline \<and> \<not> wsOpen recordingOffline
   \<and> sent (onaudioprocess [Finite (1 / 2)] recordingOffline) = sent recordingOffline
   \<and> sent (lcOnaudioprocess [Finite (1 / 2)] recordingOffline) = sent recordingOffline
   \<and> sent recordingOffline = []"
  by (simp add: recordingOffline_eq recordingOnline_eq initial_def onaudioprocess_def
        lcOnaudioprocess_def)

subsection \<open>Requests\<close>

lemma query_reply_guard:
  "\<not> isProcessing (handleSendMessageReply t outcome st) \<or> queryInFlight st = None"
  "\<not> sendButtonDisabled (handleSendMessageReply t outcome st) \<or> queryInFlight st = None"
  by (simp_all add: handleSendMessageReply_def Let_def split: option.splits)

lemma query_failure_message:
  assumes "queryInFlight st = Some loadingId" "queryFails outcome"
  shows "chatMessages (handleSendMessageReply t outcome st)
           = remove1 (LoadingMessage loadingId) (chatMessages st)
             @ [Message queryErrorText Bot None True]"
  using assms
  by (cases outcome)
    (simp_all add: handleSendMessageReply_def querySucceeded_def removeLoadingMessage_def
       addMessage_def Let_def)

lemma upload_reply:
  assumes "uploadInFlight st = name # rest"
  shows "\<not> uploadButtonDisabled (handleFileUploadReply outcome st)"
    and "uploadError outcome = Some msg \<Longrightarrow>
         uploadStatus (handleFileUploadReply outcome st) = uploadErrorStatus msg"
proof -
  show "\<not> uploadButtonDisabled (handleFileUploadReply outcome st)"
  proof (cases outcome)
    case (UploadFailed m)
    with assms show ?thesis by (simp add: handleFileUploadReply_def)
  next
    case (UploadResponse ok detail)
    with assms show ?thesis
      by (cases ok) (simp_all add: handleFileUploadReply_def addMessage_def)
  qed
  show "uploadStatus (handleFileUploadReply outcome st) = uploadErrorStatus msg"
    if "uploadError outcome = Some msg"
  proof (cases outcome)
    case (UploadFailed m)
    with assms that show ?thesis by (simp add: handleFileUploadReply_def)
  next
    case (UploadResponse ok detail)
    with assms that show ?thesis
      by (cases ok) (simp_all add: handleFileUploadReply_def)
  qed
qed

lemma assist_failure_silent:
  assumes "outcome = AssistFailed \<or> outcome = AssistNotOk"
  shows "handleNavAssistReply t outcome st = st\<lparr>assistInFlight := assistInFlight st - 1\<rparr>"
  using assms by (auto simp: handleNavAssistReply_def)

lemma send_sets_guard:
  assumes "trim (messageInput st) \<noteq> []" "\<not> isProcessing st"
  shows "isProcessing (handleSendMessage t st)" "sendButtonDisabled (handleSendMessage t st)"
    "queryInFlight (handleSendMessage t st) = Some t"
  using assms by (simp_all add: handleSendMessage_def addMessage_def Let_def)

lemma send_refused:
  "trim (messageInput st) = [] \<or> isProcessing st \<Longrightarrow> handleSendMessage t st = st"
  by (auto simp: handleSendMessage_def Let_def)

lemma upload_in_flight:
  "uploadButtonDisabled (handleFileUpload (Some f) st)"
  "uploadInFlight (handleFileUpload (Some f) st) = uploadInFlight st @ [f]"
  by (simp_all add: handleFileUpload_def)


lemma queryPending_eq:
  "queryPending = initial\<lparr>wsOpen := True, connectionStatus := (Connected, ''Ready''),
       chatMessages := [Message ''hello'' User None False, LoadingMessage 6],
       isProcessing := True, sendButtonDisabled := True, queryInFlight := Some 6\<rparr>"
  by (simp add: queryPending_def initial_def step_def updateConnectionStatus_def
        handleSendMessage_def addMessage_def trim_def whiteSpace_def Let_def)

lemma uploadPending_eq:
  "uploadPending = initial\<lparr>wsOpen := True, connectionStatus := (Connected, ''Ready''),
       uploadStatus := (''Uploading rules.pdf...'', ''upload-status''),
       uploadButtonDisabled := True, uploadInFlight := [''rules.pdf'']\<rparr>"
  by (simp add: uploadPending_def initial_def step_def updateConnectionStatus_def
        handleFileUpload_def)


lemma assistPending_eq:
  "assistPending = navTurn\<lparr>assistInFlight := 1,
       chatMessages := [Message ''open chat'' User None False]\<rparr>"
  by (simp add: assistPending_def navTurn_eq initial_def handler_defs)


subsection \<open>Starting a recording\<close>

lemma startRecording_eq:
  assumes "\<not> isRecording st"
  shows "startRecording m b st
     = st\<lparr>navSuppressRealtime := False, navResponseTimeout := None,
          pendingAudioChunks := [], pendingAudioMimeType := None, audioQueue := [],
          isPlayingAudio := False, hasShownAudioIndicator := False,
          playing := (case activeAudio st of None \<Rightarrow> playing st
                      | Some u \<Rightarrow> removeAll u (playing st)),
          paused := (case activeAudio st of None \<Rightarrow> paused st | Some u \<Rightarrow> paused st @ [u]),
          activeAudio := None,
          mediaRequests := mediaRequests st @ [(m, b)]\<rparr>"
  using assms
  by (cases "activeAudio st")
    (simp_all add: startRecording_def resetNavAssistState_def resetAudioPlaybackState_def
       clearNavSpeechFallback_eq Let_def)

lemma startRecordingReply_granted:
  assumes "mediaRequests s \<noteq> []"
  shows "isRecording (startRecordingReply True s)"
    "\<not> navAwaitingResponse (startRecordingReply True s)"
    "\<not> awaitingRealtimeResponse (startRecordingReply True s)"
    "\<not> hasShownAudioIndicator (startRecordingReply True s)"
  using assms
  by (simp_all add: startRecordingReply_def setNavResponding_def updateConnectionStatus_def
        Let_def split: list.splits prod.splits)


lemma clipPlaying_fields:
  "\<not> isRecording clipPlaying" "activeAudio clipPlaying = Some 0" "playing clipPlaying = [0]"
  "paused clipPlaying = []" "isPlayingAudio clipPlaying" "revoked clipPlaying = []"
  by (simp_all add: clipPlaying_def navTurn_eq initial_def handler_defs Let_def atob_AQID)



end
